theory Spec2Isabelle
  imports Complex_Main "HOL-Library.Sublist" "HOL-Library.Log_Nat"
    "HOL-Library.Char_ord" "HOL-Library.List_Lexorder"
begin

section \<open>The compose generator (compose/compose.go)\<close>

text \<open>
  The program builds a docker-compose document for a dgraph cluster from a set of
  options.  Go's \<^verbatim>\<open>int\<close> is modelled as \<^typ>\<open>int\<close>; where the 64-bit range
  of the machine type matters (the conversion to \<^verbatim>\<open>float64\<close>) it is a stated
  hypothesis (\<open>go_int\<close> below).  Go strings are byte strings, here \<^typ>\<open>string\<close>.
  The global variable \<^verbatim>\<open>opts\<close> is passed explicitly.
\<close>

subsection \<open>Data model\<close>

type_synonym StringMap = "string \<rightharpoonup> string"

record Volume =
  Type :: string
  Source :: string
  Target :: string
  ReadOnly :: bool

record Service =
  svc_name :: string
  Image :: string
  ContainerName :: string
  WorkingDir :: string
  DependsOn :: "string list"
  Labels :: StringMap
  Environment :: "string list"
  Ports :: "string list"
  Volumes :: "Volume list"
  svc_TempFS :: "string list"
  User :: string
  Command :: string

record ComposeConfig =
  Version :: string
  Services :: "string \<rightharpoonup> Service"
  cfg_Volumes :: "string \<rightharpoonup> StringMap"

text \<open>
  What the serializer writes is a tree: a scalar, a truth value, a sequence, or a
  mapping whose entries stand in the order in which they are written.
\<close>

datatype yaml = YStr string | YBool bool | YSeq "yaml list" | YMap "(string \<times> yaml) list"

record Options =
  NumZeros :: int
  NumAlphas :: int
  NumGroups :: int
  LruSizeMB :: int
  EnterpriseMode :: bool
  AclSecret :: string
  DataDir :: string
  DataVol :: bool
  TempFS :: bool
  UserOwnership :: bool
  Jaeger :: bool
  TestPortRange :: bool
  Verbosity :: int
  OutFile :: string

text \<open>The range of Go's \<^verbatim>\<open>int\<close> on a 64-bit platform.\<close>

definition go_int :: "int \<Rightarrow> bool" where
  "go_int n \<longleftrightarrow> - (2 ^ 63) \<le> n \<and> n < 2 ^ 63"

definition zeroBasePort :: int where
  "zeroBasePort = 5080"

definition alphaBasePort :: int where
  "alphaBasePort = 7080"

subsection \<open>What the program takes from its environment\<close>

text \<open>
  \<open>user_Current\<close> is the result of \<^verbatim>\<open>user.Current()\<close>: \<open>Inr uid\<close> with the
  \<^verbatim>\<open>Uid\<close> field of the user, or \<open>Inl e\<close> with the text of the error.
  \<open>float_to_int_unrep\<close> is the value the platform gives to a conversion
  \<^verbatim>\<open>int(f)\<close> whose result the type cannot represent (the Go specification leaves it
  implementation-dependent).
  \<open>map_range S\<close> is the order in which an iteration over a Go map with the key set
  \<open>S\<close> visits the keys: the runtime chooses it, and it changes from one run to the next.
  \<open>yaml_emit\<close> is the text that the emitter of the serializer library writes for a
  tree (see \<open>yaml_Marshal\<close> below): \<open>Inl e\<close> is an error, \<open>Inr text\<close> the text.
  \<open>log_prefix\<close> is what the standard logger writes before a message: the date and
  the time of the call.
  \<open>os_Args\<close> is the argument vector, and \<open>os_Create path\<close> tells whether the file
  can be opened for writing (\<open>Some e\<close> is the error).
\<close>

record Env =
  user_Current :: "string + string"
  float_to_int_unrep :: int
  map_range :: "string set \<Rightarrow> string list"
  yaml_emit :: "yaml \<Rightarrow> string + string"
  log_prefix :: string
  os_Args :: "string list"
  os_Create :: "string \<Rightarrow> string option"

subsection \<open>Formatting: the verbs of fmt.Sprintf that the program uses\<close>

definition digit_char :: "nat \<Rightarrow> char" where
  "digit_char d = ''0123456789'' ! d"

fun show_nat :: "nat \<Rightarrow> string" where
  "show_nat n = (if n < 10 then [digit_char n] else show_nat (n div 10) @ [digit_char (n mod 10)])"

declare show_nat.simps [simp del]

text \<open>\<^verbatim>\<open>%d\<close> of an integer: decimal, with a minus sign when negative.\<close>

definition fmt_d :: "int \<Rightarrow> string" where
  "fmt_d i = (if i < 0 then CHR ''-'' # show_nat (nat (- i)) else show_nat (nat i))"

text \<open>\<^verbatim>\<open>%v\<close> of a slice of strings: the elements between brackets, separated by spaces.\<close>

fun join_sp :: "string list \<Rightarrow> string" where
  "join_sp [] = []"
| "join_sp [x] = x"
| "join_sp (x # y # ys) = x @ '' '' @ join_sp (y # ys)"

definition fmt_v :: "string list \<Rightarrow> string" where
  "fmt_v xs = ''['' @ join_sp xs @ '']''"

definition newline :: string where
  "newline = [CHR 0x0A]"

subsection \<open>Floating point: float64 conversion, division and math.Ceil\<close>

text \<open>
  \<^verbatim>\<open>getZero\<close> computes the replica count as
  \<^verbatim>\<open>int(math.Ceil(float64(opts.NumAlphas)/float64(opts.NumGroups)))\<close>.
  The values of IEEE 754 binary64 are modelled as rationals with the two infinities
  and NaN; the sign of zero is not kept (it is lost in the conversion back to
  \<^verbatim>\<open>int\<close>, and the divisor here comes from an integer, so it is never \<open>-0\<close>).
  Every operation rounds the exact result to the nearest value with a 53-bit
  significand, ties to the even significand, with the exponent range of binary64
  (subnormal numbers below \<open>2 powi (-1022)\<close>, overflow to infinity from \<open>2 powi 1024\<close>).
\<close>

datatype float64 = Finite rat | PosInf | NegInf | NaN

definition round_half_even :: "rat \<Rightarrow> int" where
  "round_half_even x =
     (let f = \<lfloor>x\<rfloor>; d = x - of_int f
      in if d < 1 / 2 then f else if 1 / 2 < d then f + 1 else if even f then f else f + 1)"

text \<open>The exponent of a positive rational: \<open>ilog2 q = \<lfloor>log 2 q\<rfloor>\<close>.\<close>

definition ilog2 :: "rat \<Rightarrow> int" where
  "ilog2 q =
     (if 1 \<le> q then int (floorlog 2 (nat \<lfloor>q\<rfloor>)) - 1
      else - int (floorlog 2 (nat \<lceil>1 / q\<rceil> - 1)))"

definition round_float64 :: "rat \<Rightarrow> float64" where
  "round_float64 q =
     (if q = 0 then Finite 0
      else
        let e = max (ilog2 \<bar>q\<bar>) (- 1022);
            u = 2 powi (e - 52);
            r = of_int (round_half_even (q / u)) * u
        in if 2 powi 1024 \<le> \<bar>r\<bar> then (if 0 < q then PosInf else NegInf) else Finite r)"

definition float64_of_int :: "int \<Rightarrow> float64" where
  "float64_of_int n = round_float64 (of_int n)"

fun float64_div :: "float64 \<Rightarrow> float64 \<Rightarrow> float64" where
  "float64_div NaN _ = NaN"
| "float64_div _ NaN = NaN"
| "float64_div (Finite x) (Finite y) =
     (if y = 0 then (if x = 0 then NaN else if 0 < x then PosInf else NegInf)
      else round_float64 (x / y))"
| "float64_div (Finite x) _ = Finite 0"
| "float64_div PosInf (Finite y) = (if 0 \<le> y then PosInf else NegInf)"
| "float64_div NegInf (Finite y) = (if 0 \<le> y then NegInf else PosInf)"
| "float64_div _ _ = NaN"

fun math_Ceil :: "float64 \<Rightarrow> float64" where
  "math_Ceil (Finite x) = Finite (of_int \<lceil>x\<rceil>)"
| "math_Ceil f = f"

text \<open>
  \<^verbatim>\<open>int(f)\<close>: the fraction is discarded (truncation towards zero); a value that
  \<^verbatim>\<open>int\<close> cannot represent gives the platform's value.
\<close>

definition int_of_float64 :: "int \<Rightarrow> float64 \<Rightarrow> int" where
  "int_of_float64 unrep f =
     (case f of
        Finite x \<Rightarrow>
          (let t = (if 0 \<le> x then \<lfloor>x\<rfloor> else \<lceil>x\<rceil>)
           in if go_int t then t else unrep)
      | _ \<Rightarrow> unrep)"

subsection \<open>Errors\<close>

text \<open>
  \<open>Fatal msg\<close> is a call of \<^verbatim>\<open>fatal\<close>: the line \<^verbatim>\<open>compose: msg\<close> on the error
  stream and exit status 1.  \<open>CheckFailed msg\<close> is \<^verbatim>\<open>x.CheckfNoTrace\<close> called with
  an error.
\<close>

datatype error = Fatal string | CheckFailed string

text \<open>
  Modelled from the spec: \<^verbatim>\<open>x.CheckfNoTrace\<close> belongs to the package \<^verbatim>\<open>x\<close> of the
  repository, which is not among the sources read here.  The specification says that
  any OS-level failure (it names the failure to resolve the current user) is fatal and
  aborts the whole run immediately, with one diagnostic line and a nonzero exit status.
  So a call with an error ends the run, and a call without error does nothing.
  The diagnostic line (\<open>x_CheckfNoTrace_line\<close>) is written to the error stream by the
  standard logger: the message, after the date and the time of the call.
\<close>

definition x_CheckfNoTrace :: "string option \<Rightarrow> error + unit" where
  "x_CheckfNoTrace err = (case err of None \<Rightarrow> Inr () | Some e \<Rightarrow> Inl (CheckFailed e))"

definition x_CheckfNoTrace_line :: "Env \<Rightarrow> error \<Rightarrow> string" where
  "x_CheckfNoTrace_line env e =
     (case e of CheckFailed msg \<Rightarrow> log_prefix env @ msg @ newline | Fatal msg \<Rightarrow> [])"

subsection \<open>Building one service\<close>

definition name :: "string \<Rightarrow> int \<Rightarrow> string" where
  "name pfx idx = pfx @ fmt_d idx"

definition toExposedPort :: "int \<Rightarrow> string" where
  "toExposedPort i = fmt_d i @ '':'' @ fmt_d i"

text \<open>
  \<^verbatim>\<open>initService\<close>.  When the lookup of the current user fails, \<^verbatim>\<open>x.CheckfNoTrace\<close>
  ends the run; the branch after it (where Go would go on to read \<^verbatim>\<open>user.Uid\<close> of
  a nil user) is never reached and is an error here too.
\<close>

definition initService :: "Env \<Rightarrow> Options \<Rightarrow> string \<Rightarrow> int \<Rightarrow> int \<Rightarrow> error + Service" where
  "initService env opts basename idx grpcPort =
     (let n = name basename idx;
          svc = \<lparr> svc_name = n,
                  Image = ''dgraph/dgraph:latest'',
                  ContainerName = n,
                  WorkingDir = ''/data/'' @ n,
                  DependsOn = (if 1 < idx then [name basename (idx - 1)] else []),
                  Labels = [''cluster'' \<mapsto> ''test''],
                  Environment = [],
                  Ports = [toExposedPort grpcPort, toExposedPort (grpcPort + 1000)],
                  Volumes =
                    [\<lparr> Type = ''bind'', Source = ''$GOPATH/bin'', Target = ''/gobin'',
                       ReadOnly = True \<rparr>]
                    @ (if DataVol opts then
                         [\<lparr> Type = ''volume'', Source = ''data'', Target = ''/data'',
                            ReadOnly = False \<rparr>]
                       else if DataDir opts \<noteq> [] then
                         [\<lparr> Type = ''bind'', Source = DataDir opts, Target = ''/data'',
                            ReadOnly = False \<rparr>]
                       else []),
                  svc_TempFS = [],
                  User = [],
                  Command = ''/gobin/dgraph'' \<rparr>;
          owned =
            (if UserOwnership opts then
               (case user_Current env of
                  Inl err \<Rightarrow>
                    (case x_CheckfNoTrace (Some (''unable to get current user: '' @ err)) of
                       Inl e \<Rightarrow> Inl e
                     | Inr _ \<Rightarrow> Inl (CheckFailed ''nil user''))
                | Inr uid \<Rightarrow>
                    Inr (svc\<lparr> User := ''${UID:-'' @ uid @ ''}'',
                              WorkingDir := ''/working/'' @ n,
                              Command := Command svc @ '' --cwd=/data/'' @ n \<rparr>))
             else Inr svc)
      in case owned of
           Inl e \<Rightarrow> Inl e
         | Inr svc \<Rightarrow>
             Inr (if Jaeger opts
                  then svc\<lparr> Command := Command svc @ '' --jaeger.collector=http://jaeger:14268'' \<rparr>
                  else svc))"

definition getOffset :: "int \<Rightarrow> int" where
  "getOffset idx = (if idx = 1 then 0 else idx)"

text \<open>The replica count of \<^verbatim>\<open>getZero\<close> (lines 174-175), by the float64 operations above.\<close>

definition replicas :: "Env \<Rightarrow> Options \<Rightarrow> int" where
  "replicas env opts =
     int_of_float64 (float_to_int_unrep env)
       (math_Ceil (float64_div (float64_of_int (NumAlphas opts)) (float64_of_int (NumGroups opts))))"

definition getZero :: "Env \<Rightarrow> Options \<Rightarrow> int \<Rightarrow> error + Service" where
  "getZero env opts idx =
     (let basename = ''zero'';
          grpcPort = zeroBasePort + getOffset idx
      in case initService env opts basename idx grpcPort of
           Inl e \<Rightarrow> Inl e
         | Inr svc \<Rightarrow>
             (let svc = (if TempFS opts
                         then svc\<lparr> svc_TempFS := svc_TempFS svc @ [''/data/'' @ svc_name svc @ ''/zw''] \<rparr>
                         else svc);
                  svc = svc\<lparr> Command := Command svc @ '' zero -o '' @ fmt_d (idx - 1)
                                              @ '' --idx='' @ fmt_d idx \<rparr>;
                  svc = svc\<lparr> Command := Command svc @ '' --my='' @ svc_name svc @ '':''
                                              @ fmt_d grpcPort \<rparr>;
                  svc = svc\<lparr> Command := Command svc @ '' --replicas='' @ fmt_d (replicas env opts) \<rparr>;
                  svc = svc\<lparr> Command := Command svc @ '' --logtostderr -v=''
                                              @ fmt_d (Verbosity opts) \<rparr>;
                  svc = (if idx = 1
                         then svc\<lparr> Command := Command svc @ '' --bindall'' \<rparr>
                         else svc\<lparr> Command := Command svc @ '' --peer='' @ name basename 1 @ '':''
                                                    @ fmt_d zeroBasePort \<rparr>)
              in Inr svc))"

definition getAlpha :: "Env \<Rightarrow> Options \<Rightarrow> int \<Rightarrow> error + Service" where
  "getAlpha env opts idx =
     (let baseOffset = (if TestPortRange opts then 0 + 100 else 0);
          basename = ''alpha'';
          internalPort = alphaBasePort + baseOffset + getOffset idx;
          grpcPort = internalPort + 1000
      in case initService env opts basename idx grpcPort of
           Inl e \<Rightarrow> Inl e
         | Inr svc \<Rightarrow>
             (let svc = (if TempFS opts
                         then svc\<lparr> svc_TempFS := svc_TempFS svc @ [''/data/'' @ svc_name svc @ ''/w''] \<rparr>
                         else svc);
                  svc = svc\<lparr> Command := Command svc @ '' alpha -o '' @ fmt_d (baseOffset + idx - 1) \<rparr>;
                  svc = svc\<lparr> Command := Command svc @ '' --my='' @ svc_name svc @ '':''
                                              @ fmt_d internalPort \<rparr>;
                  svc = svc\<lparr> Command := Command svc @ '' --lru_mb='' @ fmt_d (LruSizeMB opts) \<rparr>;
                  svc = svc\<lparr> Command := Command svc @ '' --zero=zero1:'' @ fmt_d zeroBasePort \<rparr>;
                  svc = svc\<lparr> Command := Command svc @ '' --logtostderr -v=''
                                              @ fmt_d (Verbosity opts) \<rparr>;
                  svc = svc\<lparr> Command := Command svc
                                   @ '' --whitelist=10.0.0.0/8,172.16.0.0/12,192.168.0.0/16'' \<rparr>;
                  svc = (if EnterpriseMode opts then
                           (let svc = svc\<lparr> Command := Command svc @ '' --enterprise_features'' \<rparr>
                            in if AclSecret opts \<noteq> [] then
                                 svc\<lparr> Command := Command svc
                                          @ '' --acl_secret_file=/secret/hmac --acl_access_ttl 10s'',
                                      Volumes := Volumes svc
                                          @ [\<lparr> Type = ''bind'', Source = AclSecret opts,
                                               Target = ''/secret/hmac'', ReadOnly = True \<rparr>] \<rparr>
                               else svc)
                         else svc)
              in Inr svc))"

definition getJaeger :: Service where
  "getJaeger =
     \<lparr> svc_name = [],
       Image = ''jaegertracing/all-in-one:latest'',
       ContainerName = ''jaeger'',
       WorkingDir = ''/working/jaeger'',
       DependsOn = [],
       Labels = Map.empty,
       Environment = [''COLLECTOR_ZIPKIN_HTTP_PORT=9411''],
       Ports = [toExposedPort 16686],
       Volumes = [],
       svc_TempFS = [],
       User = [],
       Command = ''--memory.max-traces=1000000'' \<rparr>"

subsection \<open>The run: main\<close>

text \<open>
  \<^verbatim>\<open>warning\<close> and \<^verbatim>\<open>fatal\<close> write one line to the error stream; \<^verbatim>\<open>fatal\<close> then
  leaves with exit status 1.
\<close>

definition warning :: "string \<Rightarrow> string" where
  "warning str = ''compose: '' @ str @ newline"

definition fatal :: "string \<Rightarrow> string" where
  "fatal msg = ''compose: '' @ msg @ newline"

text \<open>
  The sanity checks of \<^verbatim>\<open>main\<close> (lines 296-315), on the options as the flag parser
  left them.  The result is the text written to the error stream and either the error
  that ended the run or the options the rest of \<^verbatim>\<open>main\<close> works with.
\<close>

definition main_checks :: "Options \<Rightarrow> string \<times> (error + Options)" where
  "main_checks opts =
     (if NumZeros opts < 1 \<or> 99 < NumZeros opts then
        (fatal ''number of zeros must be 1-99'', Inl (Fatal ''number of zeros must be 1-99''))
      else if NumAlphas opts < 1 \<or> 99 < NumAlphas opts then
        (fatal ''number of alphas must be 1-99'', Inl (Fatal ''number of alphas must be 1-99''))
      else if LruSizeMB opts < 1024 then
        (fatal ''LRU cache size must be >= 1024 MB'', Inl (Fatal ''LRU cache size must be >= 1024 MB''))
      else
        (let (w, opts) =
               (if AclSecret opts \<noteq> [] \<and> \<not> EnterpriseMode opts
                then (warning ''adding --enterprise because it is required by ACL feature'',
                      opts\<lparr> EnterpriseMode := True \<rparr>)
                else ([], opts))
         in if DataVol opts \<and> DataDir opts \<noteq> [] then
              (w @ fatal ''only one of --data_vol and --data_dir may be used at a time'',
               Inl (Fatal ''only one of --data_vol and --data_dir may be used at a time''))
            else if UserOwnership opts \<and> DataDir opts = [] then
              (w @ fatal ''--user option requires --data_dir=<path>'',
               Inl (Fatal ''--user option requires --data_dir=<path>''))
            else (w, Inr opts)))"

text \<open>The two \<^verbatim>\<open>for\<close> statements of \<^verbatim>\<open>main\<close> (lines 319-327) over the map \<^verbatim>\<open>services\<close>.\<close>

function main_zeros :: "Env \<Rightarrow> Options \<Rightarrow> int \<Rightarrow> (string \<rightharpoonup> Service) \<Rightarrow> error + (string \<rightharpoonup> Service)" where
  "main_zeros env opts i services =
     (if i \<le> NumZeros opts then
        (case getZero env opts i of
           Inl e \<Rightarrow> Inl e
         | Inr svc \<Rightarrow> main_zeros env opts (i + 1) (services(svc_name svc \<mapsto> svc)))
      else Inr services)"
  by pat_completeness auto
termination
  by (relation "measure (\<lambda>(env, opts, i, services). nat (NumZeros opts + 1 - i))") auto

function main_alphas :: "Env \<Rightarrow> Options \<Rightarrow> int \<Rightarrow> (string \<rightharpoonup> Service) \<Rightarrow> error + (string \<rightharpoonup> Service)" where
  "main_alphas env opts i services =
     (if i \<le> NumAlphas opts then
        (case getAlpha env opts i of
           Inl e \<Rightarrow> Inl e
         | Inr svc \<Rightarrow> main_alphas env opts (i + 1) (services(svc_name svc \<mapsto> svc)))
      else Inr services)"
  by pat_completeness auto
termination
  by (relation "measure (\<lambda>(env, opts, i, services). nat (NumAlphas opts + 1 - i))") auto

declare main_zeros.simps [simp del]
declare main_alphas.simps [simp del]

text \<open>
  The topology document of \<^verbatim>\<open>main\<close> (lines 317-341), from the checked options: the
  value that is handed to \<^verbatim>\<open>yaml.Marshal\<close>.
\<close>

definition main_config :: "Env \<Rightarrow> Options \<Rightarrow> error + ComposeConfig" where
  "main_config env opts =
     (case main_zeros env opts 1 Map.empty of
        Inl e \<Rightarrow> Inl e
      | Inr services \<Rightarrow>
          (case main_alphas env opts 1 services of
             Inl e \<Rightarrow> Inl e
           | Inr services \<Rightarrow>
               Inr \<lparr> Version = ''3.5'',
                     Services = (if Jaeger opts then services(''jaeger'' \<mapsto> getJaeger) else services),
                     cfg_Volumes = (if DataVol opts then [''data'' \<mapsto> Map.empty] else Map.empty) \<rparr>))"

text \<open>
  Modelled from the spec: \<^verbatim>\<open>yaml.Marshal\<close> belongs to the library gopkg.in/yaml.v2,
  whose text is not among the sources read here.  The specification says that the
  serializer renders the topology document with deterministic key traversal where the
  format requires it.  The format requires it for the Go maps of the document (the
  services, the named volumes, the labels of a service, the attributes of a named
  volume): an iteration over a Go map visits the keys in an order that the runtime
  chooses (\<open>map_range\<close>), and the serializer writes the entries sorted by key (here
  by the order of the bytes, as one fixed linear order on the keys).  The fields of a
  struct are written in the order of their declaration (lines 35-61), each under the
  key that its declaration gives (the tag, or else the name of the field in lower
  case); a field marked \<^verbatim>\<open>omitempty\<close> is written only when it is not empty, and the
  field \<^verbatim>\<open>name\<close>, which is not exported, is never written.  The layout of the text
  (indentation, quotes, line breaks) is the emitter's, a parameter of the environment.
\<close>

definition map_entries :: "Env \<Rightarrow> (string \<rightharpoonup> 'a) \<Rightarrow> ('a \<Rightarrow> yaml) \<Rightarrow> (string \<times> yaml) list" where
  "map_entries env m f =
     List.map_filter (\<lambda>k. map_option (\<lambda>v. (k, f v)) (m k)) (sort (map_range env (dom m)))"

definition yaml_StringMap :: "Env \<Rightarrow> StringMap \<Rightarrow> yaml" where
  "yaml_StringMap env m = YMap (map_entries env m YStr)"

definition yaml_Volume :: "Volume \<Rightarrow> yaml" where
  "yaml_Volume v =
     YMap [(''type'', YStr (Type v)), (''source'', YStr (Source v)),
           (''target'', YStr (Target v)), (''read_only'', YBool (ReadOnly v))]"

definition yaml_Service :: "Env \<Rightarrow> Service \<Rightarrow> yaml" where
  "yaml_Service env svc =
     YMap ([(''image'', YStr (Image svc)),
            (''container_name'', YStr (ContainerName svc)),
            (''working_dir'', YStr (WorkingDir svc))]
           @ (if DependsOn svc = [] then []
              else [(''depends_on'', YSeq (map YStr (DependsOn svc)))])
           @ [(''labels'', yaml_StringMap env (Labels svc)),
              (''environment'', YSeq (map YStr (Environment svc))),
              (''ports'', YSeq (map YStr (Ports svc))),
              (''volumes'', YSeq (map yaml_Volume (Volumes svc)))]
           @ (if svc_TempFS svc = [] then []
              else [(''tempfs'', YSeq (map YStr (svc_TempFS svc)))])
           @ (if User svc = [] then [] else [(''user'', YStr (User svc))])
           @ [(''command'', YStr (Command svc))])"

definition yaml_ComposeConfig :: "Env \<Rightarrow> ComposeConfig \<Rightarrow> yaml" where
  "yaml_ComposeConfig env cfg =
     YMap [(''version'', YStr (Version cfg)),
           (''services'', YMap (map_entries env (Services cfg) (yaml_Service env))),
           (''volumes'', YMap (map_entries env (cfg_Volumes cfg) (yaml_StringMap env)))]"

definition yaml_Marshal :: "Env \<Rightarrow> ComposeConfig \<Rightarrow> string + string" where
  "yaml_Marshal env cfg = yaml_emit env (yaml_ComposeConfig env cfg)"

text \<open>
  What a run leaves behind: the text written to the error stream by \<^verbatim>\<open>warning\<close>,
  \<^verbatim>\<open>fatal\<close>, \<^verbatim>\<open>x.CheckfNoTrace\<close> and the notice of \<^verbatim>\<open>main\<close> (\<open>err_stream\<close>), and
  either the error that
  ended it with a nonzero exit status, or the destination (\<^verbatim>\<open>-\<close> is the standard
  output, anything else the path of a file) with the text written to it.
\<close>

record Outcome =
  err_stream :: string
  result :: "error + (string \<times> string)"

definition exit_status :: "Outcome \<Rightarrow> int" where
  "exit_status out = (case result out of Inl e \<Rightarrow> 1 | Inr _ \<Rightarrow> 0)"

definition main :: "Env \<Rightarrow> Options \<Rightarrow> Outcome" where
  "main env opts0 =
     (case main_checks opts0 of
        (w, Inl e) \<Rightarrow> \<lparr> err_stream = w, result = Inl e \<rparr>
      | (w, Inr opts) \<Rightarrow>
          (case main_config env opts of
             Inl e \<Rightarrow> \<lparr> err_stream = w @ x_CheckfNoTrace_line env e, result = Inl e \<rparr>
           | Inr cfg \<Rightarrow>
               (case yaml_Marshal env cfg of
                  Inl err \<Rightarrow>
                    (case x_CheckfNoTrace (Some err) of
                       Inl e \<Rightarrow>
                         \<lparr> err_stream = w @ x_CheckfNoTrace_line env e, result = Inl e \<rparr>
                     | Inr _ \<Rightarrow> \<lparr> err_stream = w, result = Inl (CheckFailed ''nil document'') \<rparr>)
                | Inr yml \<Rightarrow>
                    (let doc = ''# Auto-generated with: '' @ fmt_v (os_Args env) @ newline
                                 @ ''#'' @ newline @ yml
                     in if OutFile opts = ''-'' then
                          \<lparr> err_stream = w, result = Inr (''-'', doc) \<rparr>
                        else
                          (let w = w @ ''writing file: '' @ OutFile opts @ newline
                           in case os_Create env (OutFile opts) of
                                Some err \<Rightarrow>
                                  \<lparr> err_stream = w @ fatal (''unable to open file for writing: '' @ err),
                                     result = Inl (Fatal (''unable to open file for writing: '' @ err)) \<rparr>
                              | None \<Rightarrow> \<lparr> err_stream = w, result = Inr (OutFile opts, doc) \<rparr>)))))"

subsection \<open>Notions used in the statements\<close>

text \<open>A command string contains a flag when the flag is a contiguous part of it.\<close>

definition contains :: "string \<Rightarrow> string \<Rightarrow> bool" where
  "contains s sub \<longleftrightarrow> sublist sub s"

text \<open>
  The lookup of the current user is needed only in user-ownership mode; \<open>lookup_ok\<close>
  says that it succeeds whenever the program makes it.
\<close>

definition lookup_ok :: "Env \<Rightarrow> Options \<Rightarrow> bool" where
  "lookup_ok env opts \<longleftrightarrow> (UserOwnership opts \<longrightarrow> \<not> isl (user_Current env))"

text \<open>The two optional parts that \<^verbatim>\<open>initService\<close> adds to the command of every role.\<close>

definition cwd_flag :: "Options \<Rightarrow> string \<Rightarrow> string" where
  "cwd_flag opts n = (if UserOwnership opts then '' --cwd=/data/'' @ n else [])"

definition jaeger_flag :: "Options \<Rightarrow> string" where
  "jaeger_flag opts = (if Jaeger opts then '' --jaeger.collector=http://jaeger:14268'' else [])"

text \<open>The value of \<^verbatim>\<open>baseOffset\<close> in \<^verbatim>\<open>getAlpha\<close>.\<close>

definition test_offset :: "Options \<Rightarrow> int" where
  "test_offset opts = (if TestPortRange opts then 100 else 0)"

text \<open>The options that pass every sanity check of \<^verbatim>\<open>main\<close>.\<close>

definition valid_options :: "Options \<Rightarrow> bool" where
  "valid_options opts \<longleftrightarrow>
     1 \<le> NumZeros opts \<and> NumZeros opts \<le> 99 \<and>
     1 \<le> NumAlphas opts \<and> NumAlphas opts \<le> 99 \<and>
     1024 \<le> LruSizeMB opts \<and>
     \<not> (DataVol opts \<and> DataDir opts \<noteq> []) \<and>
     \<not> (UserOwnership opts \<and> DataDir opts = [])"

text \<open>The characters that \<^verbatim>\<open>%d\<close> can print.\<close>

definition dchar :: "char \<Rightarrow> bool" where
  "dchar c \<longleftrightarrow> c \<in> set ''-0123456789''"

text \<open>
  The document that a run of \<^verbatim>\<open>main\<close> hands to the serializer: the sanity checks,
  then the builder on the options they leave.
\<close>

definition main_document :: "Env \<Rightarrow> Options \<Rightarrow> error + ComposeConfig" where
  "main_document env opts0 =
     (case main_checks opts0 of
        (w, Inl e) \<Rightarrow> Inl e
      | (w, Inr opts) \<Rightarrow> main_config env opts)"

text \<open>
  The text that a run of \<^verbatim>\<open>main\<close> generates for its destination (lines 343-364): the
  provenance comment with the argument vector, then the text of the serializer for the
  document.
\<close>

definition main_text :: "Env \<Rightarrow> Options \<Rightarrow> error + string" where
  "main_text env opts0 =
     (case main_document env opts0 of
        Inl e \<Rightarrow> Inl e
      | Inr cfg \<Rightarrow>
          (case yaml_Marshal env cfg of
             Inl err \<Rightarrow> Inl (CheckFailed err)
           | Inr yml \<Rightarrow>
               Inr (''# Auto-generated with: '' @ fmt_v (os_Args env) @ newline
                    @ ''#'' @ newline @ yml)))"

text \<open>
  What Go promises of an iteration over a map: it visits every key of the map once, in
  an order of the runtime's choosing.
\<close>

definition iteration_ok :: "(string set \<Rightarrow> string list) \<Rightarrow> bool" where
  "iteration_ok r \<longleftrightarrow> (\<forall>S. finite S \<longrightarrow> distinct (r S) \<and> set (r S) = S)"

text \<open>The options after the checks: an access-control secret switches enterprise mode on.\<close>

definition resolved :: "Options \<Rightarrow> Options" where
  "resolved opts = opts\<lparr> EnterpriseMode := EnterpriseMode opts \<or> AclSecret opts \<noteq> [] \<rparr>"

text \<open>
  The values that the flag declarations of \<^verbatim>\<open>main\<close> (lines 258-285) give to the
  options when the command line sets none of them.
\<close>

definition default_options :: Options where
  "default_options =
     \<lparr> NumZeros = 3, NumAlphas = 3, NumGroups = 1, LruSizeMB = 1024,
       EnterpriseMode = False, AclSecret = [], DataDir = [], DataVol = False,
       TempFS = False, UserOwnership = False, Jaeger = False, TestPortRange = True,
       Verbosity = 2, OutFile = ''./docker-compose.yml'' \<rparr>"

text \<open>
  An emitter for the examples: it writes the tree in the flow style of YAML, every
  scalar as it is.  The layout of the library (block style, quotes, folded lines) is
  not modelled; the examples need an emitter that writes every scalar of the tree.
\<close>

fun join_comma :: "string list \<Rightarrow> string" where
  "join_comma [] = []"
| "join_comma [x] = x"
| "join_comma (x # y # ys) = x @ '', '' @ join_comma (y # ys)"

primrec yaml_flow :: "yaml \<Rightarrow> string" where
  "yaml_flow (YStr s) = s"
| "yaml_flow (YBool b) = (if b then ''true'' else ''false'')"
| "yaml_flow (YSeq ts) = ''['' @ join_comma (map yaml_flow ts) @ '']''"
| "yaml_flow (YMap kts) =
     ''{'' @ join_comma (map (\<lambda>(k, t). k @ '': '' @ t) (map (map_prod id yaml_flow) kts)) @ ''}''"

text \<open>
  An environment to run examples in: the user has uid 1000, the platform is amd64
  (an unrepresentable conversion gives the least \<^verbatim>\<open>int\<close>), an iteration over a map
  visits the keys in increasing order, the emitter is the one above, and every file can
  be created.
\<close>

definition example_env :: Env where
  "example_env =
     \<lparr> user_Current = Inr ''1000'', float_to_int_unrep = - (2 ^ 63),
       map_range = sorted_list_of_set,
       yaml_emit = (\<lambda>t. Inr (yaml_flow t @ newline)),
       log_prefix = ''2019/03/01 12:00:00 '',
       os_Args = [''compose''],
       os_Create = (\<lambda>path. None) \<rparr>"

text \<open>
  The options and the environment of the run
  \<^verbatim>\<open>compose --num_zeros=1 --num_alphas=1 --user --data_dir=/tmp/data\<close> made by the user
  with the uid \<open>uid\<close>, otherwise in the example environment.
\<close>

definition example_user_options :: Options where
  "example_user_options =
     default_options\<lparr> NumZeros := 1, NumAlphas := 1, UserOwnership := True,
                      DataDir := ''/tmp/data'' \<rparr>"

definition example_user_env :: "string \<Rightarrow> Env" where
  "example_user_env uid =
     example_env\<lparr> user_Current := Inr uid,
                  os_Args := [''compose'', ''--num_zeros=1'', ''--num_alphas=1'', ''--user'',
                              ''--data_dir=/tmp/data''] \<rparr>"

text \<open>The line that the checks write when they switch enterprise mode on.\<close>

definition acl_warning :: "Options \<Rightarrow> string" where
  "acl_warning opts =
     (if AclSecret opts \<noteq> [] \<and> \<not> EnterpriseMode opts
      then warning ''adding --enterprise because it is required by ACL feature'' else [])"

section \<open>Properties\<close>

subsection \<open>Formatting\<close>

lemma dchar_digit: "d < 10 \<Longrightarrow> dchar (digit_char d)"
proof -
  assume "d < 10"
  then have "digit_char d \<in> set ''0123456789''"
    unfolding digit_char_def by (intro nth_mem) simp
  then show ?thesis unfolding dchar_def by (simp only: set_simps insert_iff) blast
qed

lemma show_nat_ne: "show_nat n \<noteq> []"
  by (subst show_nat.simps) simp

lemma show_nat_dchar: "list_all dchar (show_nat n)"
proof (induction n rule: show_nat.induct)
  case (1 n)
  show ?case
  proof (cases "n < 10")
    case True
    then show ?thesis by (subst show_nat.simps) (simp add: dchar_digit)
  next
    case False
    then have "list_all dchar (show_nat (n div 10))" using 1 by simp
    then show ?thesis using False by (subst show_nat.simps) (simp add: dchar_digit)
  qed
qed

lemma fmt_d_dchar: "list_all dchar (fmt_d i)"
proof -
  have "dchar CHR ''-''" by (simp add: dchar_def)
  then show ?thesis by (simp add: fmt_d_def show_nat_dchar)
qed

lemma fmt_d_ne: "fmt_d i \<noteq> []"
  by (simp add: fmt_d_def show_nat_ne)

lemma digit_char_inj: "a < 10 \<Longrightarrow> b < 10 \<Longrightarrow> digit_char a = digit_char b \<Longrightarrow> a = b"
  unfolding digit_char_def
  by (rule nth_eq_iff_index_eq[THEN iffD1, of "''0123456789''"]) simp_all

lemma show_nat_small: "n < 10 \<Longrightarrow> show_nat n = [digit_char n]"
  by (subst show_nat.simps) simp

lemma show_nat_large:
  "\<not> n < 10 \<Longrightarrow> show_nat n = show_nat (n div 10) @ [digit_char (n mod 10)]"
  by (subst show_nat.simps) simp

lemma show_nat_inj: "show_nat n = show_nat m \<Longrightarrow> n = m"
proof (induction n arbitrary: m rule: show_nat.induct)
  case (1 n)
  show ?case
  proof (cases "n < 10")
    case n: True
    show ?thesis
    proof (cases "m < 10")
      case True
      with n 1(2) show ?thesis
        by (simp add: show_nat_small digit_char_inj)
    next
      case False
      with n 1(2) show ?thesis
        using show_nat_ne[of "m div 10"]
        by (simp add: show_nat_small show_nat_large)
    qed
  next
    case n: False
    show ?thesis
    proof (cases "m < 10")
      case True
      with n 1(2) show ?thesis
        using show_nat_ne[of "n div 10"]
        by (simp add: show_nat_small show_nat_large)
    next
      case False
      with n 1(2) have "show_nat (n div 10) = show_nat (m div 10)"
        and d: "digit_char (n mod 10) = digit_char (m mod 10)"
        by (simp_all add: show_nat_large)
      then have "n div 10 = m div 10" using 1(1) n by simp
      moreover have "n mod 10 = m mod 10" using d by (intro digit_char_inj) simp_all
      ultimately show ?thesis by (metis div_mult_mod_eq)
    qed
  qed
qed

lemma fmt_d_inj_nonneg: "0 \<le> i \<Longrightarrow> 0 \<le> j \<Longrightarrow> fmt_d i = fmt_d j \<Longrightarrow> i = j"
  by (auto simp: fmt_d_def dest: show_nat_inj)

lemma fmt_d_5080: "fmt_d 5080 = ''5080''"
  by (simp add: fmt_d_def show_nat.simps digit_char_def)

subsection \<open>What a service record holds when it is built\<close>

lemma initService_total:
  "lookup_ok env opts \<Longrightarrow> \<exists>svc. initService env opts b i p = Inr svc"
  by (cases "user_Current env") (simp_all add: lookup_ok_def initService_def Let_def)

lemma initService_fails:
  "\<not> lookup_ok env opts \<Longrightarrow> \<exists>e. initService env opts b i p = Inl e"
  by (cases "user_Current env")
    (simp_all add: lookup_ok_def initService_def Let_def x_CheckfNoTrace_def)

lemma initService_name:
  "initService env opts b i p = Inr svc \<Longrightarrow> svc_name svc = name b i"
  by (cases "user_Current env"; cases "UserOwnership opts"; cases "Jaeger opts")
     (simp_all add: initService_def Let_def x_CheckfNoTrace_def, auto)

lemma initService_Ports:
  "initService env opts b i p = Inr svc \<Longrightarrow>
     Ports svc = [toExposedPort p, toExposedPort (p + 1000)]"
  by (cases "user_Current env"; cases "UserOwnership opts"; cases "Jaeger opts")
    (simp_all add: initService_def Let_def x_CheckfNoTrace_def, auto)

lemma initService_Command:
  "initService env opts b i p = Inr svc \<Longrightarrow>
     Command svc = ''/gobin/dgraph'' @ cwd_flag opts (name b i) @ jaeger_flag opts"
  by (cases "user_Current env"; cases "UserOwnership opts"; cases "Jaeger opts")
    (simp_all add: initService_def Let_def x_CheckfNoTrace_def cwd_flag_def jaeger_flag_def, auto)

lemma initService_TempFS:
  "initService env opts b i p = Inr svc \<Longrightarrow> svc_TempFS svc = []"
  by (cases "user_Current env"; cases "UserOwnership opts"; cases "Jaeger opts")
    (simp_all add: initService_def Let_def x_CheckfNoTrace_def, auto)

lemma initService_Volumes:
  "initService env opts b i p = Inr svc \<Longrightarrow>
     Volumes svc =
       [\<lparr> Type = ''bind'', Source = ''$GOPATH/bin'', Target = ''/gobin'', ReadOnly = True \<rparr>]
       @ (if DataVol opts then
            [\<lparr> Type = ''volume'', Source = ''data'', Target = ''/data'', ReadOnly = False \<rparr>]
          else if DataDir opts \<noteq> [] then
            [\<lparr> Type = ''bind'', Source = DataDir opts, Target = ''/data'', ReadOnly = False \<rparr>]
          else [])"
  by (cases "user_Current env"; cases "UserOwnership opts"; cases "Jaeger opts")
    (simp_all add: initService_def Let_def x_CheckfNoTrace_def, auto)

lemma getZero_cases:
  assumes "getZero env opts i = Inr z"
  obtains svc where "initService env opts ''zero'' i (zeroBasePort + getOffset i) = Inr svc"
proof (cases "initService env opts ''zero'' i (zeroBasePort + getOffset i)")
  case (Inl e)
  then show ?thesis using assms by (simp add: getZero_def Let_def)
next
  case (Inr svc)
  then show ?thesis by (rule that)
qed

lemma getZero_total: "lookup_ok env opts \<Longrightarrow> \<exists>z. getZero env opts i = Inr z"
proof -
  assume "lookup_ok env opts"
  then obtain svc where "initService env opts ''zero'' i (zeroBasePort + getOffset i) = Inr svc"
    using initService_total by blast
  then show ?thesis by (simp add: getZero_def Let_def)
qed

lemma getZero_fails: "\<not> lookup_ok env opts \<Longrightarrow> \<exists>e. getZero env opts i = Inl e"
proof -
  assume "\<not> lookup_ok env opts"
  then obtain e where "initService env opts ''zero'' i (zeroBasePort + getOffset i) = Inl e"
    using initService_fails by blast
  then show ?thesis by (simp add: getZero_def Let_def)
qed

lemma getZero_name: "getZero env opts i = Inr z \<Longrightarrow> svc_name z = name ''zero'' i"
proof -
  assume a: "getZero env opts i = Inr z"
  then obtain svc where s: "initService env opts ''zero'' i (zeroBasePort + getOffset i) = Inr svc"
    by (rule getZero_cases)
  from a s initService_name[OF s] show ?thesis
    by (cases "TempFS opts"; cases "i = 1") (auto simp: getZero_def Let_def)
qed

lemma getZero_Ports:
  "getZero env opts i = Inr z \<Longrightarrow>
     Ports z = [toExposedPort (zeroBasePort + getOffset i),
                toExposedPort (zeroBasePort + getOffset i + 1000)]"
proof -
  assume a: "getZero env opts i = Inr z"
  then obtain svc where s: "initService env opts ''zero'' i (zeroBasePort + getOffset i) = Inr svc"
    by (rule getZero_cases)
  from a s initService_Ports[OF s] show ?thesis
    by (cases "TempFS opts"; cases "i = 1") (auto simp: getZero_def Let_def)
qed

lemma getZero_Volumes:
  "getZero env opts i = Inr z \<Longrightarrow>
     Volumes z =
       [\<lparr> Type = ''bind'', Source = ''$GOPATH/bin'', Target = ''/gobin'', ReadOnly = True \<rparr>]
       @ (if DataVol opts then
            [\<lparr> Type = ''volume'', Source = ''data'', Target = ''/data'', ReadOnly = False \<rparr>]
          else if DataDir opts \<noteq> [] then
            [\<lparr> Type = ''bind'', Source = DataDir opts, Target = ''/data'', ReadOnly = False \<rparr>]
          else [])"
proof -
  assume a: "getZero env opts i = Inr z"
  then obtain svc where s: "initService env opts ''zero'' i (zeroBasePort + getOffset i) = Inr svc"
    by (rule getZero_cases)
  from a s have "Volumes z = Volumes svc"
    by (cases "TempFS opts"; cases "i = 1") (auto simp: getZero_def Let_def)
  then show ?thesis by (simp only: initService_Volumes[OF s])
qed

lemma getZero_Command:
  "getZero env opts i = Inr z \<Longrightarrow>
     Command z = ''/gobin/dgraph'' @ cwd_flag opts (name ''zero'' i) @ jaeger_flag opts
           @ '' zero -o '' @ fmt_d (i - 1) @ '' --idx='' @ fmt_d i
           @ '' --my='' @ name ''zero'' i @ '':'' @ fmt_d (zeroBasePort + getOffset i)
           @ '' --replicas='' @ fmt_d (replicas env opts)
           @ '' --logtostderr -v='' @ fmt_d (Verbosity opts)
           @ (if i = 1 then '' --bindall''
              else '' --peer='' @ name ''zero'' 1 @ '':'' @ fmt_d zeroBasePort)"
proof -
  assume a: "getZero env opts i = Inr z"
  then obtain svc where s: "initService env opts ''zero'' i (zeroBasePort + getOffset i) = Inr svc"
    by (rule getZero_cases)
  from a s initService_name[OF s] initService_Command[OF s] show ?thesis
    by (cases "TempFS opts"; cases "i = 1") (auto simp: getZero_def Let_def)
qed

lemma getAlpha_cases:
  assumes "getAlpha env opts i = Inr a"
  obtains svc where
    "initService env opts ''alpha'' i (alphaBasePort + test_offset opts + getOffset i + 1000) = Inr svc"
proof (cases "initService env opts ''alpha'' i (alphaBasePort + test_offset opts + getOffset i + 1000)")
  case (Inl e)
  then show ?thesis using assms
    by (cases "TestPortRange opts") (simp_all add: getAlpha_def Let_def test_offset_def)
next
  case (Inr svc)
  then show ?thesis by (rule that)
qed

lemma getAlpha_total: "lookup_ok env opts \<Longrightarrow> \<exists>a. getAlpha env opts i = Inr a"
proof -
  assume "lookup_ok env opts"
  then obtain svc where
    "initService env opts ''alpha'' i (alphaBasePort + test_offset opts + getOffset i + 1000) = Inr svc"
    using initService_total by blast
  then show ?thesis
    by (cases "TestPortRange opts") (simp_all add: getAlpha_def Let_def test_offset_def)
qed

lemma getAlpha_fails: "\<not> lookup_ok env opts \<Longrightarrow> \<exists>e. getAlpha env opts i = Inl e"
proof -
  assume "\<not> lookup_ok env opts"
  then obtain e where
    "initService env opts ''alpha'' i (alphaBasePort + test_offset opts + getOffset i + 1000) = Inl e"
    using initService_fails by blast
  then show ?thesis
    by (cases "TestPortRange opts") (simp_all add: getAlpha_def Let_def test_offset_def)
qed

lemma getAlpha_name: "getAlpha env opts i = Inr a \<Longrightarrow> svc_name a = name ''alpha'' i"
proof -
  assume a: "getAlpha env opts i = Inr a"
  then obtain svc where s:
    "initService env opts ''alpha'' i (alphaBasePort + test_offset opts + getOffset i + 1000) = Inr svc"
    by (rule getAlpha_cases)
  from a s initService_name[OF s] show ?thesis
    by (cases "TestPortRange opts"; cases "TempFS opts"; cases "EnterpriseMode opts";
        cases "AclSecret opts = []")
       (auto simp: getAlpha_def Let_def test_offset_def)
qed

lemma getAlpha_Ports:
  "getAlpha env opts i = Inr a \<Longrightarrow>
     Ports a = [toExposedPort (alphaBasePort + test_offset opts + getOffset i + 1000),
                toExposedPort (alphaBasePort + test_offset opts + getOffset i + 1000 + 1000)]"
proof -
  assume a: "getAlpha env opts i = Inr a"
  then obtain svc where s:
    "initService env opts ''alpha'' i (alphaBasePort + test_offset opts + getOffset i + 1000) = Inr svc"
    by (rule getAlpha_cases)
  from a s initService_Ports[OF s] show ?thesis
    by (cases "TestPortRange opts"; cases "TempFS opts"; cases "EnterpriseMode opts";
        cases "AclSecret opts = []")
       (auto simp: getAlpha_def Let_def test_offset_def)
qed

lemma getAlpha_Volumes:
  "getAlpha env opts i = Inr a \<Longrightarrow>
     Volumes a =
       [\<lparr> Type = ''bind'', Source = ''$GOPATH/bin'', Target = ''/gobin'', ReadOnly = True \<rparr>]
       @ (if DataVol opts then
            [\<lparr> Type = ''volume'', Source = ''data'', Target = ''/data'', ReadOnly = False \<rparr>]
          else if DataDir opts \<noteq> [] then
            [\<lparr> Type = ''bind'', Source = DataDir opts, Target = ''/data'', ReadOnly = False \<rparr>]
          else [])
       @ (if EnterpriseMode opts \<and> AclSecret opts \<noteq> [] then
            [\<lparr> Type = ''bind'', Source = AclSecret opts, Target = ''/secret/hmac'',
               ReadOnly = True \<rparr>]
          else [])"
proof -
  assume a: "getAlpha env opts i = Inr a"
  then obtain svc where s:
    "initService env opts ''alpha'' i (alphaBasePort + test_offset opts + getOffset i + 1000) = Inr svc"
    by (rule getAlpha_cases)
  from a s have "Volumes a = Volumes svc
       @ (if EnterpriseMode opts \<and> AclSecret opts \<noteq> [] then
            [\<lparr> Type = ''bind'', Source = AclSecret opts, Target = ''/secret/hmac'',
               ReadOnly = True \<rparr>]
          else [])"
    by (cases "TestPortRange opts"; cases "TempFS opts"; cases "EnterpriseMode opts";
        cases "AclSecret opts = []")
       (auto simp: getAlpha_def Let_def test_offset_def)
  then show ?thesis by (simp only: initService_Volumes[OF s] append_assoc)
qed

lemma getAlpha_Command:
  "getAlpha env opts i = Inr a \<Longrightarrow>
     Command a = ''/gobin/dgraph'' @ cwd_flag opts (name ''alpha'' i) @ jaeger_flag opts
           @ '' alpha -o '' @ fmt_d (test_offset opts + i - 1)
           @ '' --my='' @ name ''alpha'' i @ '':''
           @ fmt_d (alphaBasePort + test_offset opts + getOffset i)
           @ '' --lru_mb='' @ fmt_d (LruSizeMB opts)
           @ '' --zero=zero1:'' @ fmt_d zeroBasePort
           @ '' --logtostderr -v='' @ fmt_d (Verbosity opts)
           @ '' --whitelist=10.0.0.0/8,172.16.0.0/12,192.168.0.0/16''
           @ (if EnterpriseMode opts then
                '' --enterprise_features''
                @ (if AclSecret opts \<noteq> [] then
                     '' --acl_secret_file=/secret/hmac --acl_access_ttl 10s'' else [])
              else [])"
proof -
  assume a: "getAlpha env opts i = Inr a"
  then obtain svc where s:
    "initService env opts ''alpha'' i (alphaBasePort + test_offset opts + getOffset i + 1000) = Inr svc"
    by (rule getAlpha_cases)
  from a s initService_name[OF s] initService_Command[OF s] show ?thesis
    by (cases "TestPortRange opts"; cases "TempFS opts"; cases "EnterpriseMode opts";
        cases "AclSecret opts = []")
       (auto simp: getAlpha_def Let_def test_offset_def)
qed

subsection \<open>The iterations of the builder\<close>

lemma name_inj: "0 \<le> i \<Longrightarrow> 0 \<le> j \<Longrightarrow> name b i = name b j \<Longrightarrow> i = j"
  by (simp add: name_def fmt_d_inj_nonneg)

lemma name_zero_alpha: "name ''zero'' i \<noteq> name ''alpha'' j"
  by (simp add: name_def)

lemma name_zero_jaeger: "name ''zero'' i \<noteq> ''jaeger''"
  by (simp add: name_def)

lemma name_alpha_jaeger: "name ''alpha'' i \<noteq> ''jaeger''"
  by (simp add: name_def)

lemma main_zeros_spec:
  "lookup_ok env opts \<Longrightarrow> 0 \<le> i \<Longrightarrow>
     \<exists>m'. main_zeros env opts i m = Inr m' \<and>
       (\<forall>j. i \<le> j \<and> j \<le> NumZeros opts \<longrightarrow>
            (\<exists>z. getZero env opts j = Inr z \<and> m' (name ''zero'' j) = Some z)) \<and>
       (\<forall>k. (\<forall>j. i \<le> j \<and> j \<le> NumZeros opts \<longrightarrow> k \<noteq> name ''zero'' j) \<longrightarrow> m' k = m k)"
proof (induction env opts i m rule: main_zeros.induct)
  case (1 env opts i m)
  show ?case
  proof (cases "i \<le> NumZeros opts")
    case False
    then show ?thesis by (subst main_zeros.simps) auto
  next
    case True
    obtain z where z: "getZero env opts i = Inr z"
      using getZero_total[OF "1.prems"(1)] by blast
    have nz: "svc_name z = name ''zero'' i" by (rule getZero_name[OF z])
    have "0 \<le> i + 1" using "1.prems"(2) by simp
    from "1.IH"[OF True z "1.prems"(1) this]
    obtain m' where run: "main_zeros env opts (i + 1) (m(svc_name z \<mapsto> z)) = Inr m'"
      and built': "\<forall>j. i + 1 \<le> j \<and> j \<le> NumZeros opts \<longrightarrow>
                    (\<exists>z. getZero env opts j = Inr z \<and> m' (name ''zero'' j) = Some z)"
      and frame': "\<forall>k. (\<forall>j. i + 1 \<le> j \<and> j \<le> NumZeros opts \<longrightarrow> k \<noteq> name ''zero'' j) \<longrightarrow>
                    m' k = (m(svc_name z \<mapsto> z)) k"
      by blast
    have built: "\<exists>z'. getZero env opts j = Inr z' \<and> m' (name ''zero'' j) = Some z'"
      if "i + 1 \<le> j" "j \<le> NumZeros opts" for j
      using built' that by blast
    have frame: "m' k = (m(svc_name z \<mapsto> z)) k"
      if "\<forall>j. i + 1 \<le> j \<and> j \<le> NumZeros opts \<longrightarrow> k \<noteq> name ''zero'' j" for k
      using frame' that by blast
    have here: "main_zeros env opts i m = Inr m'"
      using True z run by (subst main_zeros.simps) simp
    have first: "m' (name ''zero'' i) = Some z"
    proof -
      have "name ''zero'' i \<noteq> name ''zero'' j" if "i + 1 \<le> j" for j
        using name_inj[of i j "''zero''"] "1.prems"(2) that by auto
      then have "\<forall>j. i + 1 \<le> j \<and> j \<le> NumZeros opts \<longrightarrow> name ''zero'' i \<noteq> name ''zero'' j"
        by blast
      then show ?thesis using frame[of "name ''zero'' i"] nz by simp
    qed
    have all: "\<exists>z'. getZero env opts j = Inr z' \<and> m' (name ''zero'' j) = Some z'"
      if "i \<le> j" "j \<le> NumZeros opts" for j
    proof (cases "j = i")
      case True
      then show ?thesis using z first by simp
    next
      case False
      then show ?thesis using that built[of j] by simp
    qed
    have rest: "m' k = m k"
      if "\<forall>j. i \<le> j \<and> j \<le> NumZeros opts \<longrightarrow> k \<noteq> name ''zero'' j" for k
    proof -
      have "k \<noteq> name ''zero'' i" using that True by simp
      moreover have "\<forall>j. i + 1 \<le> j \<and> j \<le> NumZeros opts \<longrightarrow> k \<noteq> name ''zero'' j"
        using that by simp
      ultimately show ?thesis using frame[of k] nz by simp
    qed
    show ?thesis using here all rest by blast
  qed
qed

lemma main_alphas_spec:
  "lookup_ok env opts \<Longrightarrow> 0 \<le> i \<Longrightarrow>
     \<exists>m'. main_alphas env opts i m = Inr m' \<and>
       (\<forall>j. i \<le> j \<and> j \<le> NumAlphas opts \<longrightarrow>
            (\<exists>z. getAlpha env opts j = Inr z \<and> m' (name ''alpha'' j) = Some z)) \<and>
       (\<forall>k. (\<forall>j. i \<le> j \<and> j \<le> NumAlphas opts \<longrightarrow> k \<noteq> name ''alpha'' j) \<longrightarrow> m' k = m k)"
proof (induction env opts i m rule: main_alphas.induct)
  case (1 env opts i m)
  show ?case
  proof (cases "i \<le> NumAlphas opts")
    case False
    then show ?thesis by (subst main_alphas.simps) auto
  next
    case True
    obtain z where z: "getAlpha env opts i = Inr z"
      using getAlpha_total[OF "1.prems"(1)] by blast
    have nz: "svc_name z = name ''alpha'' i" by (rule getAlpha_name[OF z])
    have "0 \<le> i + 1" using "1.prems"(2) by simp
    from "1.IH"[OF True z "1.prems"(1) this]
    obtain m' where run: "main_alphas env opts (i + 1) (m(svc_name z \<mapsto> z)) = Inr m'"
      and built': "\<forall>j. i + 1 \<le> j \<and> j \<le> NumAlphas opts \<longrightarrow>
                    (\<exists>z. getAlpha env opts j = Inr z \<and> m' (name ''alpha'' j) = Some z)"
      and frame': "\<forall>k. (\<forall>j. i + 1 \<le> j \<and> j \<le> NumAlphas opts \<longrightarrow> k \<noteq> name ''alpha'' j) \<longrightarrow>
                    m' k = (m(svc_name z \<mapsto> z)) k"
      by blast
    have built: "\<exists>z'. getAlpha env opts j = Inr z' \<and> m' (name ''alpha'' j) = Some z'"
      if "i + 1 \<le> j" "j \<le> NumAlphas opts" for j
      using built' that by blast
    have frame: "m' k = (m(svc_name z \<mapsto> z)) k"
      if "\<forall>j. i + 1 \<le> j \<and> j \<le> NumAlphas opts \<longrightarrow> k \<noteq> name ''alpha'' j" for k
      using frame' that by blast
    have here: "main_alphas env opts i m = Inr m'"
      using True z run by (subst main_alphas.simps) simp
    have first: "m' (name ''alpha'' i) = Some z"
    proof -
      have "name ''alpha'' i \<noteq> name ''alpha'' j" if "i + 1 \<le> j" for j
        using name_inj[of i j "''alpha''"] "1.prems"(2) that by auto
      then have "\<forall>j. i + 1 \<le> j \<and> j \<le> NumAlphas opts \<longrightarrow> name ''alpha'' i \<noteq> name ''alpha'' j"
        by blast
      then show ?thesis using frame[of "name ''alpha'' i"] nz by simp
    qed
    have all: "\<exists>z'. getAlpha env opts j = Inr z' \<and> m' (name ''alpha'' j) = Some z'"
      if "i \<le> j" "j \<le> NumAlphas opts" for j
    proof (cases "j = i")
      case True
      then show ?thesis using z first by simp
    next
      case False
      then show ?thesis using that built[of j] by simp
    qed
    have rest: "m' k = m k"
      if "\<forall>j. i \<le> j \<and> j \<le> NumAlphas opts \<longrightarrow> k \<noteq> name ''alpha'' j" for k
    proof -
      have "k \<noteq> name ''alpha'' i" using that True by simp
      moreover have "\<forall>j. i + 1 \<le> j \<and> j \<le> NumAlphas opts \<longrightarrow> k \<noteq> name ''alpha'' j"
        using that by simp
      ultimately show ?thesis using frame[of k] nz by simp
    qed
    show ?thesis using here all rest by blast
  qed
qed


lemma main_checks_valid:
  "valid_options opts \<Longrightarrow>
     main_checks opts =
       (if AclSecret opts \<noteq> [] \<and> \<not> EnterpriseMode opts
        then warning ''adding --enterprise because it is required by ACL feature'' else [],
        Inr (resolved opts))"
  by (cases "EnterpriseMode opts") (auto simp: valid_options_def main_checks_def resolved_def)

lemma main_document_valid:
  "valid_options opts \<Longrightarrow> main_document env opts = main_config env (resolved opts)"
  by (simp add: main_document_def main_checks_valid)

lemma resolved_simps:
  "NumZeros (resolved opts) = NumZeros opts"
  "NumAlphas (resolved opts) = NumAlphas opts"
  "Jaeger (resolved opts) = Jaeger opts"
  "DataVol (resolved opts) = DataVol opts"
  "UserOwnership (resolved opts) = UserOwnership opts"
  "AclSecret (resolved opts) = AclSecret opts"
  "EnterpriseMode (resolved opts) = (EnterpriseMode opts \<or> AclSecret opts \<noteq> [])"
  by (simp_all add: resolved_def)

lemma lookup_ok_resolved: "lookup_ok env (resolved opts) = lookup_ok env opts"
  by (simp add: lookup_ok_def resolved_def)

lemma main_config_spec:
  assumes ok: "lookup_ok env opts"
  shows "\<exists>cfg. main_config env opts = Inr cfg \<and>
     Version cfg = ''3.5'' \<and>
     cfg_Volumes cfg = (if DataVol opts then [''data'' \<mapsto> Map.empty] else Map.empty) \<and>
     (\<forall>i. 1 \<le> i \<and> i \<le> NumZeros opts \<longrightarrow>
        (\<exists>z. getZero env opts i = Inr z \<and> Services cfg (name ''zero'' i) = Some z)) \<and>
     (\<forall>i. 1 \<le> i \<and> i \<le> NumAlphas opts \<longrightarrow>
        (\<exists>a. getAlpha env opts i = Inr a \<and> Services cfg (name ''alpha'' i) = Some a)) \<and>
     Services cfg ''jaeger'' = (if Jaeger opts then Some getJaeger else None) \<and>
     (\<forall>k. (\<forall>i. 1 \<le> i \<and> i \<le> NumZeros opts \<longrightarrow> k \<noteq> name ''zero'' i) \<and>
          (\<forall>i. 1 \<le> i \<and> i \<le> NumAlphas opts \<longrightarrow> k \<noteq> name ''alpha'' i) \<and>
          k \<noteq> ''jaeger'' \<longrightarrow> Services cfg k = None)"
proof -
  obtain m1 where z: "main_zeros env opts 1 Map.empty = Inr m1"
    and z1: "\<forall>j. 1 \<le> j \<and> j \<le> NumZeros opts \<longrightarrow>
              (\<exists>z. getZero env opts j = Inr z \<and> m1 (name ''zero'' j) = Some z)"
    and z2: "\<forall>k. (\<forall>j. 1 \<le> j \<and> j \<le> NumZeros opts \<longrightarrow> k \<noteq> name ''zero'' j) \<longrightarrow>
              m1 k = Map.empty k"
    using main_zeros_spec[OF ok, of 1 Map.empty] by auto
  obtain m2 where a: "main_alphas env opts 1 m1 = Inr m2"
    and a1: "\<forall>j. 1 \<le> j \<and> j \<le> NumAlphas opts \<longrightarrow>
              (\<exists>z. getAlpha env opts j = Inr z \<and> m2 (name ''alpha'' j) = Some z)"
    and a2: "\<forall>k. (\<forall>j. 1 \<le> j \<and> j \<le> NumAlphas opts \<longrightarrow> k \<noteq> name ''alpha'' j) \<longrightarrow>
              m2 k = m1 k"
    using main_alphas_spec[OF ok, of 1 m1] by auto
  let ?cfg = "\<lparr> Version = ''3.5'',
                Services = (if Jaeger opts then m2(''jaeger'' \<mapsto> getJaeger) else m2),
                cfg_Volumes = (if DataVol opts then [''data'' \<mapsto> Map.empty] else Map.empty) \<rparr>"
  have c: "main_config env opts = Inr ?cfg"
    by (simp add: main_config_def z a)
  have zeros: "\<exists>z. getZero env opts i = Inr z \<and> Services ?cfg (name ''zero'' i) = Some z"
    if r: "1 \<le> i" "i \<le> NumZeros opts" for i
  proof -
    obtain z where "getZero env opts i = Inr z" "m1 (name ''zero'' i) = Some z"
      using z1 r by blast
    moreover have "m2 (name ''zero'' i) = m1 (name ''zero'' i)"
      using a2 name_zero_alpha by blast
    ultimately show ?thesis using name_zero_jaeger[of i] by simp
  qed
  have alphas: "\<exists>z. getAlpha env opts i = Inr z \<and> Services ?cfg (name ''alpha'' i) = Some z"
    if r: "1 \<le> i" "i \<le> NumAlphas opts" for i
  proof -
    obtain z where "getAlpha env opts i = Inr z" "m2 (name ''alpha'' i) = Some z"
      using a1 r by blast
    then show ?thesis using name_alpha_jaeger[of i] by simp
  qed
  have "m2 ''jaeger'' = None"
  proof -
    have "m2 ''jaeger'' = m1 ''jaeger''" using a2 name_alpha_jaeger by metis
    also have "\<dots> = None" using z2 name_zero_jaeger by metis
    finally show ?thesis .
  qed
  then have jaeger: "Services ?cfg ''jaeger'' = (if Jaeger opts then Some getJaeger else None)"
    by simp
  have other: "Services ?cfg k = None"
    if "\<forall>i. 1 \<le> i \<and> i \<le> NumZeros opts \<longrightarrow> k \<noteq> name ''zero'' i"
      "\<forall>i. 1 \<le> i \<and> i \<le> NumAlphas opts \<longrightarrow> k \<noteq> name ''alpha'' i"
      "k \<noteq> ''jaeger''" for k
  proof -
    have "m2 k = m1 k" using a2 that(2) by blast
    also have "\<dots> = None" using z2 that(1) by simp
    finally show ?thesis using that(3) by simp
  qed
  show ?thesis
    apply (rule exI[of _ ?cfg])
    using c zeros alphas jaeger other by simp
qed

subsection \<open>The document of a run\<close>

lemma name_inj_on: "inj_on (name b) {1..n}"
proof (rule inj_onI)
  fix x y :: int
  assume "x \<in> {1..n}" "y \<in> {1..n}" "name b x = name b y"
  then show "x = y" using name_inj[of x y b] by simp
qed

lemma card_names: "0 \<le> n \<Longrightarrow> card (name b ` {1..n}) = nat n"
  by (simp add: card_image name_inj_on)

lemma default_valid: "valid_options default_options"
  by (simp add: valid_options_def default_options_def)

lemma example_lookup_ok: "lookup_ok example_env opts"
  by (simp add: lookup_ok_def example_env_def)

lemma builder_document:
  assumes v: "valid_options opts" and ok: "lookup_ok env opts"
  shows "\<exists>cfg. main_document env opts = Inr cfg \<and>
     dom (Services cfg) =
       name ''zero'' ` {1..NumZeros opts} \<union> name ''alpha'' ` {1..NumAlphas opts}
       \<union> (if Jaeger opts then {''jaeger''} else {}) \<and>
     (\<forall>i\<in>{1..NumZeros opts}.
        \<exists>z. getZero env (resolved opts) i = Inr z \<and> Services cfg (name ''zero'' i) = Some z) \<and>
     (\<forall>i\<in>{1..NumAlphas opts}.
        \<exists>a. getAlpha env (resolved opts) i = Inr a \<and> Services cfg (name ''alpha'' i) = Some a) \<and>
     (Jaeger opts \<longrightarrow> Services cfg ''jaeger'' = Some getJaeger)"
proof -
  have ok': "lookup_ok env (resolved opts)" using ok by (simp add: lookup_ok_resolved)
  from main_config_spec[OF ok'] obtain cfg where
    c: "main_config env (resolved opts) = Inr cfg"
    and zs: "\<forall>i. 1 \<le> i \<and> i \<le> NumZeros opts \<longrightarrow>
        (\<exists>z. getZero env (resolved opts) i = Inr z \<and> Services cfg (name ''zero'' i) = Some z)"
    and as: "\<forall>i. 1 \<le> i \<and> i \<le> NumAlphas opts \<longrightarrow>
        (\<exists>a. getAlpha env (resolved opts) i = Inr a \<and> Services cfg (name ''alpha'' i) = Some a)"
    and j: "Services cfg ''jaeger'' = (if Jaeger opts then Some getJaeger else None)"
    and other: "\<forall>k. (\<forall>i. 1 \<le> i \<and> i \<le> NumZeros opts \<longrightarrow> k \<noteq> name ''zero'' i) \<and>
          (\<forall>i. 1 \<le> i \<and> i \<le> NumAlphas opts \<longrightarrow> k \<noteq> name ''alpha'' i) \<and>
          k \<noteq> ''jaeger'' \<longrightarrow> Services cfg k = None"
    unfolding resolved_simps by blast
  have d: "main_document env opts = Inr cfg"
    using c v by (simp add: main_document_valid)
  have "dom (Services cfg) =
       name ''zero'' ` {1..NumZeros opts} \<union> name ''alpha'' ` {1..NumAlphas opts}
       \<union> (if Jaeger opts then {''jaeger''} else {})"
  proof (rule set_eqI)
    fix k
    show "k \<in> dom (Services cfg) \<longleftrightarrow>
       k \<in> name ''zero'' ` {1..NumZeros opts} \<union> name ''alpha'' ` {1..NumAlphas opts}
          \<union> (if Jaeger opts then {''jaeger''} else {})"
    proof (cases "(\<exists>i. 1 \<le> i \<and> i \<le> NumZeros opts \<and> k = name ''zero'' i) \<or>
                  (\<exists>i. 1 \<le> i \<and> i \<le> NumAlphas opts \<and> k = name ''alpha'' i)")
      case True
      then have "k \<in> dom (Services cfg)" using zs as by (auto simp: dom_def)
      moreover have "k \<in> name ''zero'' ` {1..NumZeros opts} \<union> name ''alpha'' ` {1..NumAlphas opts}"
        using True by auto
      ultimately show ?thesis by blast
    next
      case False
      then have no: "k \<notin> name ''zero'' ` {1..NumZeros opts} \<union> name ''alpha'' ` {1..NumAlphas opts}"
        by auto
      show ?thesis
      proof (cases "k = ''jaeger''")
        case True
        then show ?thesis using j no by (auto simp: dom_def)
      next
        case nj: False
        then have "Services cfg k = None" using other False by blast
        then show ?thesis using no nj by (auto simp: dom_def)
      qed
    qed
  qed
  moreover have "\<forall>i\<in>{1..NumZeros opts}.
        \<exists>z. getZero env (resolved opts) i = Inr z \<and> Services cfg (name ''zero'' i) = Some z"
    using zs by simp
  moreover have "\<forall>i\<in>{1..NumAlphas opts}.
        \<exists>a. getAlpha env (resolved opts) i = Inr a \<and> Services cfg (name ''alpha'' i) = Some a"
    using as by simp
  moreover have "Jaeger opts \<longrightarrow> Services cfg ''jaeger'' = Some getJaeger"
    using j by simp
  ultimately show ?thesis using d by blast
qed

subsection \<open>Ports and flags\<close>

lemma contains_mid: "t = p @ s @ q \<Longrightarrow> contains t s"
  by (simp add: contains_def)

lemma not_dchar_colon: "\<not> dchar CHR '':''"
  by (simp add: dchar_def)

lemma fmt_d_no_colon: "CHR '':'' \<notin> set (fmt_d i)"
  using fmt_d_dchar[of i] not_dchar_colon by (auto simp: list_all_iff)

lemma toExposedPort_inj:
  "0 \<le> p \<Longrightarrow> 0 \<le> q \<Longrightarrow> toExposedPort p = toExposedPort q \<Longrightarrow> p = q"
proof -
  assume p: "0 \<le> p" and q: "0 \<le> q" and e: "toExposedPort p = toExposedPort q"
  have "fmt_d p @ CHR '':'' # fmt_d p = fmt_d q @ CHR '':'' # fmt_d q"
    using e by (simp add: toExposedPort_def)
  then have "fmt_d p = fmt_d q"
    using fmt_d_no_colon by (simp add: append_Cons_eq_iff)
  then show ?thesis using p q by (rule fmt_d_inj_nonneg[rotated 2])
qed

lemma getOffset_bounds: "1 \<le> i \<Longrightarrow> 0 \<le> getOffset i \<and> getOffset i \<le> i"
  by (simp add: getOffset_def)

lemma getOffset_inj: "1 \<le> i \<Longrightarrow> 1 \<le> j \<Longrightarrow> getOffset i = getOffset j \<Longrightarrow> i = j"
  by (auto simp: getOffset_def split: if_splits)

lemma ports_disjoint:
  assumes "0 \<le> p" "0 \<le> q" "p \<noteq> q" "p \<noteq> q + 1000" "q \<noteq> p + 1000"
  shows "set [toExposedPort p, toExposedPort (p + 1000)]
         \<inter> set [toExposedPort q, toExposedPort (q + 1000)] = {}"
proof -
  have "toExposedPort a \<noteq> toExposedPort b" if "0 \<le> a" "0 \<le> b" "a \<noteq> b" for a b
    using toExposedPort_inj[of a b] that by blast
  from this[of p q] this[of p "q + 1000"] this[of "p + 1000" q] this[of "p + 1000" "q + 1000"]
  show ?thesis using assms by simp
qed

lemma sublist_skip_digits:
  assumes s: "sublist sub (A @ D @ B)"
    and nd: "\<forall>c\<in>set sub. \<not> dchar c"
    and d: "list_all dchar D" and dne: "D \<noteq> []"
    and ne: "sub \<noteq> []"
  shows "sublist sub A \<or> sublist sub B"
proof -
  have clash: False if "x \<in> set sub" "x \<in> set D" for x
    using that nd d by (auto simp: list_all_iff)
  from s consider (a) "sublist sub A" | (db) "sublist sub (D @ B)"
    | (st) x1 x2 where "sub = x1 @ x2" "suffix x1 A" "prefix x2 (D @ B)"
    unfolding sublist_append[of sub A] by blast
  then show ?thesis
  proof cases
    case a
    then show ?thesis by simp
  next
    case db
    then consider (d) "sublist sub D" | (b) "sublist sub B"
      | (st2) y1 y2 where "sub = y1 @ y2" "suffix y1 D" "prefix y2 B"
      unfolding sublist_append[of sub D] by blast
    then show ?thesis
    proof cases
      case d
      then have "set sub \<subseteq> set D" by (rule set_mono_sublist)
      moreover obtain x where "x \<in> set sub" using ne by (cases sub) auto
      ultimately show ?thesis using clash by blast
    next
      case b
      then show ?thesis by simp
    next
      case st2
      show ?thesis
      proof (cases y1)
        case Nil
        then show ?thesis using st2 by auto
      next
        case (Cons x xs)
        then have "x \<in> set sub" using st2(1) by simp
        moreover have "x \<in> set D" using st2(2) Cons by (auto simp: suffix_def)
        ultimately show ?thesis using clash by blast
      qed
    qed
  next
    case st
    show ?thesis
    proof (cases x2)
      case Nil
      then show ?thesis using st by auto
    next
      case (Cons x xs)
      then have "x \<in> set sub" using st(1) by simp
      moreover have "x = hd D" using st(3) Cons dne by (cases D) (auto simp: prefix_def)
      then have "x \<in> set D" using dne by simp
      ultimately show ?thesis using clash by blast
    qed
  qed
qed

lemma fmt_d_0: "fmt_d 0 = ''0''" and fmt_d_1: "fmt_d 1 = ''1''"
  by (simp_all add: fmt_d_def show_nat.simps digit_char_def)

lemma name_zero1: "name ''zero'' 1 = ''zero1''" and name_alpha1: "name ''alpha'' 1 = ''alpha1''"
  by (simp_all add: name_def fmt_d_1)

lemma zero1_Command:
  assumes g: "getZero env opts 1 = Inr z"
  shows "Command z =
     (''/gobin/dgraph'' @ cwd_flag opts ''zero1'' @ jaeger_flag opts
        @ '' zero -o 0 --idx=1 --my=zero1:5080 --replicas='')
     @ fmt_d (replicas env opts) @ '' --logtostderr -v='' @ fmt_d (Verbosity opts) @ '' --bindall''"
  by (simp add: getZero_Command[OF g] name_zero1 fmt_d_0 fmt_d_1 fmt_d_5080 zeroBasePort_def
      getOffset_def)

lemma zero1_no_peer:
  assumes g: "getZero env opts 1 = Inr z"
  shows "\<not> contains (Command z) ''--peer''"
proof
  assume "contains (Command z) ''--peer''"
  then obtain p q where "Command z = p @ ''--peer'' @ q"
    by (auto simp: contains_def sublist_def)
  then have "Command z = (p @ ''--'') @ ''peer'' @ q" by simp
  then have s: "sublist ''peer'' (Command z)" unfolding sublist_def by blast
  have nd: "\<forall>c\<in>set ''peer''. \<not> dchar c" by (simp add: dchar_def)
  let ?L1 = "''/gobin/dgraph'' @ cwd_flag opts ''zero1'' @ jaeger_flag opts
        @ '' zero -o 0 --idx=1 --my=zero1:5080 --replicas=''"
  from s have "sublist ''peer'' (?L1 @ fmt_d (replicas env opts)
        @ ('' --logtostderr -v='' @ fmt_d (Verbosity opts) @ '' --bindall''))"
    by (simp only: zero1_Command[OF g])
  then have "sublist ''peer'' ?L1 \<or>
      sublist ''peer'' ('' --logtostderr -v='' @ fmt_d (Verbosity opts) @ '' --bindall'')"
    by (rule sublist_skip_digits[OF _ nd fmt_d_dchar fmt_d_ne]) simp
  moreover have "\<not> sublist ''peer'' ?L1"
    by (cases "UserOwnership opts"; cases "Jaeger opts")
       (simp_all add: cwd_flag_def jaeger_flag_def sublist_Cons_right)
  moreover have "\<not> sublist ''peer'' ('' --logtostderr -v='' @ fmt_d (Verbosity opts) @ '' --bindall'')"
  proof
    assume "sublist ''peer'' ('' --logtostderr -v='' @ fmt_d (Verbosity opts) @ '' --bindall'')"
    then have "sublist ''peer'' '' --logtostderr -v='' \<or> sublist ''peer'' '' --bindall''"
      by (rule sublist_skip_digits[OF _ nd fmt_d_dchar fmt_d_ne]) simp
    then show False by (simp add: sublist_Cons_right)
  qed
  ultimately show False by blast
qed

lemma range_one: "{1..1::int} = {1}"
  by auto

lemma initService_indep:
  "initService env (opts\<lparr> AclSecret := s, EnterpriseMode := e \<rparr>) b i p = initService env opts b i p"
proof -
  let ?o = "opts\<lparr> AclSecret := s, EnterpriseMode := e \<rparr>"
  have sel: "DataVol ?o = DataVol opts" "DataDir ?o = DataDir opts"
    "UserOwnership ?o = UserOwnership opts" "Jaeger ?o = Jaeger opts"
    by simp_all
  show ?thesis unfolding initService_def sel by (rule refl)
qed

lemma getZero_indep:
  "getZero env (opts\<lparr> AclSecret := s, EnterpriseMode := e \<rparr>) i = getZero env opts i"
proof -
  let ?o = "opts\<lparr> AclSecret := s, EnterpriseMode := e \<rparr>"
  have sel: "TempFS ?o = TempFS opts" "Verbosity ?o = Verbosity opts"
    "NumAlphas ?o = NumAlphas opts" "NumGroups ?o = NumGroups opts"
    by simp_all
  show ?thesis unfolding getZero_def initService_indep replicas_def sel by (rule refl)
qed

lemma main_zeros_indep:
  "main_zeros env (opts\<lparr> AclSecret := s, EnterpriseMode := e \<rparr>) i m = main_zeros env opts i m"
proof (induction env opts i m rule: main_zeros.induct)
  case (1 env opts i m)
  show ?case
  proof (cases "i \<le> NumZeros opts")
    case False
    then show ?thesis
      by (simp add: main_zeros.simps[of env opts i] main_zeros.simps[of env "opts\<lparr> AclSecret := s, EnterpriseMode := e \<rparr>" i])
  next
    case True
    show ?thesis
    proof (cases "getZero env opts i")
      case (Inl err)
      then show ?thesis using True
        by (simp add: main_zeros.simps[of env opts i] getZero_indep
            main_zeros.simps[of env "opts\<lparr> AclSecret := s, EnterpriseMode := e \<rparr>" i])
    next
      case (Inr z)
      have l: "main_zeros env (opts\<lparr> AclSecret := s, EnterpriseMode := e \<rparr>) i m =
               main_zeros env (opts\<lparr> AclSecret := s, EnterpriseMode := e \<rparr>) (i + 1)
                 (m(svc_name z \<mapsto> z))"
        using True Inr
        by (subst main_zeros.simps) (simp add: getZero_indep)
      have r: "main_zeros env opts i m = main_zeros env opts (i + 1) (m(svc_name z \<mapsto> z))"
        using True Inr by (subst main_zeros.simps) simp
      show ?thesis unfolding l r by (rule "1.IH"[OF True Inr])
    qed
  qed
qed

lemma not_dchar_underscore: "\<not> dchar CHR ''_''"
  by (simp add: dchar_def)

lemma fmt_d_no_underscore: "CHR ''_'' \<notin> set (fmt_d i)"
  using fmt_d_dchar[of i] not_dchar_underscore by (auto simp: list_all_iff)

lemma zero_no_underscore:
  assumes g: "getZero env opts i = Inr z"
  shows "CHR ''_'' \<notin> set (Command z)"
  unfolding getZero_Command[OF g]
  by (simp add: cwd_flag_def jaeger_flag_def name_def fmt_d_no_underscore)

lemma contains_set: "contains s sub \<Longrightarrow> set sub \<subseteq> set s"
  by (simp add: contains_def set_mono_sublist)

lemma valid_options_acl: "valid_options (opts\<lparr> AclSecret := x \<rparr>) = valid_options opts"
  by (simp add: valid_options_def)

lemma lookup_ok_acl: "lookup_ok env (opts\<lparr> AclSecret := x \<rparr>) = lookup_ok env opts"
  by (simp add: lookup_ok_def)

lemma resolved_acl:
  "resolved (opts\<lparr> AclSecret := x \<rparr>) =
     opts\<lparr> AclSecret := x, EnterpriseMode := EnterpriseMode opts \<or> x \<noteq> [] \<rparr>"
  by (simp add: resolved_def)

lemma getZero_resolved_acl: "getZero env (resolved (opts\<lparr> AclSecret := x \<rparr>)) i = getZero env opts i"
  by (simp only: resolved_acl getZero_indep)

lemma main_checks_zeros:
  "NumZeros opts < 1 \<or> 99 < NumZeros opts \<Longrightarrow>
     main_checks opts =
       (fatal ''number of zeros must be 1-99'', Inl (Fatal ''number of zeros must be 1-99''))"
  by (simp add: main_checks_def)

lemma main_checks_alphas:
  "1 \<le> NumZeros opts \<Longrightarrow> NumZeros opts \<le> 99 \<Longrightarrow>
   NumAlphas opts < 1 \<or> 99 < NumAlphas opts \<Longrightarrow>
     main_checks opts =
       (fatal ''number of alphas must be 1-99'', Inl (Fatal ''number of alphas must be 1-99''))"
  by (simp add: main_checks_def)

lemma main_checks_lru:
  "1 \<le> NumZeros opts \<Longrightarrow> NumZeros opts \<le> 99 \<Longrightarrow>
   1 \<le> NumAlphas opts \<Longrightarrow> NumAlphas opts \<le> 99 \<Longrightarrow> LruSizeMB opts < 1024 \<Longrightarrow>
     main_checks opts =
       (fatal ''LRU cache size must be >= 1024 MB'',
        Inl (Fatal ''LRU cache size must be >= 1024 MB''))"
  by (simp add: main_checks_def)

lemma main_checks_volumes:
  "1 \<le> NumZeros opts \<Longrightarrow> NumZeros opts \<le> 99 \<Longrightarrow>
   1 \<le> NumAlphas opts \<Longrightarrow> NumAlphas opts \<le> 99 \<Longrightarrow> 1024 \<le> LruSizeMB opts \<Longrightarrow>
   DataVol opts \<and> DataDir opts \<noteq> [] \<Longrightarrow>
     main_checks opts =
       (acl_warning opts @ fatal ''only one of --data_vol and --data_dir may be used at a time'',
        Inl (Fatal ''only one of --data_vol and --data_dir may be used at a time''))"
  by (cases "AclSecret opts = []"; cases "EnterpriseMode opts")
     (simp_all add: main_checks_def acl_warning_def)

lemma main_checks_user:
  "1 \<le> NumZeros opts \<Longrightarrow> NumZeros opts \<le> 99 \<Longrightarrow>
   1 \<le> NumAlphas opts \<Longrightarrow> NumAlphas opts \<le> 99 \<Longrightarrow> 1024 \<le> LruSizeMB opts \<Longrightarrow>
   \<not> (DataVol opts \<and> DataDir opts \<noteq> []) \<Longrightarrow> UserOwnership opts \<and> DataDir opts = [] \<Longrightarrow>
     main_checks opts =
       (acl_warning opts @ fatal ''--user option requires --data_dir=<path>'',
        Inl (Fatal ''--user option requires --data_dir=<path>''))"
  by (cases "AclSecret opts = []"; cases "EnterpriseMode opts")
     (simp_all add: main_checks_def acl_warning_def)

lemma main_checks_invalid:
  assumes "\<not> valid_options opts"
  shows "\<exists>e. \<forall>x. snd (main_checks (opts\<lparr> AclSecret := x \<rparr>)) = Inl e"
proof -
  consider (z) "NumZeros opts < 1 \<or> 99 < NumZeros opts"
    | (a) "1 \<le> NumZeros opts" "NumZeros opts \<le> 99" "NumAlphas opts < 1 \<or> 99 < NumAlphas opts"
    | (l) "1 \<le> NumZeros opts" "NumZeros opts \<le> 99" "1 \<le> NumAlphas opts" "NumAlphas opts \<le> 99"
          "LruSizeMB opts < 1024"
    | (v) "1 \<le> NumZeros opts" "NumZeros opts \<le> 99" "1 \<le> NumAlphas opts" "NumAlphas opts \<le> 99"
          "1024 \<le> LruSizeMB opts" "DataVol opts \<and> DataDir opts \<noteq> []"
    | (u) "1 \<le> NumZeros opts" "NumZeros opts \<le> 99" "1 \<le> NumAlphas opts" "NumAlphas opts \<le> 99"
          "1024 \<le> LruSizeMB opts" "\<not> (DataVol opts \<and> DataDir opts \<noteq> [])"
          "UserOwnership opts \<and> DataDir opts = []"
    using assms unfolding valid_options_def by linarith
  then show ?thesis
  proof cases
    case z
    then have "snd (main_checks (opts\<lparr> AclSecret := x \<rparr>)) = Inl (Fatal ''number of zeros must be 1-99'')" for x
      by (subst main_checks_zeros) simp_all
    then show ?thesis by blast
  next
    case a
    then have "snd (main_checks (opts\<lparr> AclSecret := x \<rparr>)) = Inl (Fatal ''number of alphas must be 1-99'')" for x
      by (subst main_checks_alphas) simp_all
    then show ?thesis by blast
  next
    case l
    then have "snd (main_checks (opts\<lparr> AclSecret := x \<rparr>)) = Inl (Fatal ''LRU cache size must be >= 1024 MB'')" for x
      by (subst main_checks_lru) simp_all
    then show ?thesis by blast
  next
    case v
    then have "snd (main_checks (opts\<lparr> AclSecret := x \<rparr>)) =
        Inl (Fatal ''only one of --data_vol and --data_dir may be used at a time'')" for x
      by (subst main_checks_volumes) simp_all
    then show ?thesis by blast
  next
    case u
    then have "snd (main_checks (opts\<lparr> AclSecret := x \<rparr>)) =
        Inl (Fatal ''--user option requires --data_dir=<path>'')" for x
      by (subst main_checks_user) simp_all
    then show ?thesis by blast
  qed
qed

lemma main_document_invalid:
  assumes "\<not> valid_options opts"
  shows "\<exists>e. \<forall>x. main_document env (opts\<lparr> AclSecret := x \<rparr>) = Inl e"
proof -
  from main_checks_invalid[OF assms] obtain e where
    e: "\<And>x. snd (main_checks (opts\<lparr> AclSecret := x \<rparr>)) = Inl e" by blast
  have "main_document env (opts\<lparr> AclSecret := x \<rparr>) = Inl e" for x
    using e[of x] by (cases "main_checks (opts\<lparr> AclSecret := x \<rparr>)") (simp add: main_document_def)
  then show ?thesis by blast
qed

lemma main_config_lookup_fails:
  assumes "\<not> lookup_ok env opts" "1 \<le> NumZeros opts"
  shows "\<exists>e. getZero env opts 1 = Inl e \<and> main_config env opts = Inl e"
proof -
  obtain e where e: "getZero env opts 1 = Inl e" using getZero_fails[OF assms(1)] by blast
  then have "main_zeros env opts 1 Map.empty = Inl e"
    using assms(2) by (subst main_zeros.simps) simp
  then show ?thesis using e by (simp add: main_config_def)
qed

lemma main_document_acl_zeros:
  "(case main_document env (opts\<lparr> AclSecret := s \<rparr>) of
      Inl err \<Rightarrow> main_document env (opts\<lparr> AclSecret := [] \<rparr>) = Inl err
    | Inr c1 \<Rightarrow>
        (\<exists>c2. main_document env (opts\<lparr> AclSecret := [] \<rparr>) = Inr c2 \<and>
           dom (Services c1) = dom (Services c2) \<and>
           (\<forall>i\<in>{1..NumZeros opts}.
              Services c1 (name ''zero'' i) = Services c2 (name ''zero'' i))))"
proof (cases "valid_options opts")
  case False
  from main_document_invalid[OF False, of env] obtain e where
    "\<And>x. main_document env (opts\<lparr> AclSecret := x \<rparr>) = Inl e" by blast
  then show ?thesis by simp
next
  case v: True
  let ?o1 = "opts\<lparr> AclSecret := s \<rparr>" and ?o2 = "opts\<lparr> AclSecret := [] \<rparr>"
  have v1: "valid_options ?o1" and v2: "valid_options ?o2"
    using v by (simp_all add: valid_options_acl)
  show ?thesis
  proof (cases "lookup_ok env opts")
    case False
    have n: "1 \<le> NumZeros opts" using v by (simp add: valid_options_def)
    have f1: "\<not> lookup_ok env (resolved ?o1)" and f2: "\<not> lookup_ok env (resolved ?o2)"
      using False by (simp_all add: lookup_ok_resolved lookup_ok_acl)
    obtain e1 where e1: "getZero env (resolved ?o1) 1 = Inl e1" "main_config env (resolved ?o1) = Inl e1"
      using main_config_lookup_fails[OF f1] n by (auto simp: resolved_simps)
    obtain e2 where e2: "getZero env (resolved ?o2) 1 = Inl e2" "main_config env (resolved ?o2) = Inl e2"
      using main_config_lookup_fails[OF f2] n by (auto simp: resolved_simps)
    have "e1 = e2" using e1(1) e2(1) by (simp add: getZero_resolved_acl)
    then show ?thesis
      using e1(2) e2(2) by (simp add: main_document_valid[OF v1] main_document_valid[OF v2])
  next
    case True
    then have ok1: "lookup_ok env ?o1" and ok2: "lookup_ok env ?o2"
      by (simp_all add: lookup_ok_acl)
    from builder_document[OF v1 ok1] obtain c1 where
      d1: "main_document env ?o1 = Inr c1"
      and dm1: "dom (Services c1) =
         name ''zero'' ` {1..NumZeros opts} \<union> name ''alpha'' ` {1..NumAlphas opts}
         \<union> (if Jaeger opts then {''jaeger''} else {})"
      and z1: "\<forall>i\<in>{1..NumZeros opts}.
          \<exists>z. getZero env (resolved ?o1) i = Inr z \<and> Services c1 (name ''zero'' i) = Some z"
      by auto
    from builder_document[OF v2 ok2] obtain c2 where
      d2: "main_document env ?o2 = Inr c2"
      and dm2: "dom (Services c2) =
         name ''zero'' ` {1..NumZeros opts} \<union> name ''alpha'' ` {1..NumAlphas opts}
         \<union> (if Jaeger opts then {''jaeger''} else {})"
      and z2: "\<forall>i\<in>{1..NumZeros opts}.
          \<exists>z. getZero env (resolved ?o2) i = Inr z \<and> Services c2 (name ''zero'' i) = Some z"
      by auto
    have "Services c1 (name ''zero'' i) = Services c2 (name ''zero'' i)"
      if "i \<in> {1..NumZeros opts}" for i
      using z1 z2 that by (fastforce simp: getZero_resolved_acl)
    then show ?thesis using d1 d2 dm1 dm2 by simp
  qed
qed

lemma zero_no_secret_mount:
  assumes g: "getZero env opts i = Inr z"
  shows "\<forall>v\<in>set (Volumes z). Target v \<noteq> ''/secret/hmac''"
  unfolding getZero_Volumes[OF g] by simp

lemma zero_no_flag_with_underscore:
  assumes g: "getZero env opts i = Inr z" and u: "CHR ''_'' \<in> set flag"
  shows "\<not> contains (Command z) flag"
  using contains_set[of "Command z" flag] zero_no_underscore[OF g] u by blast

lemma main_checks_error:
  assumes "main_checks opts = (w, Inl e)"
  shows "main env opts = \<lparr> err_stream = w, result = Inl e \<rparr>"
    and "main_document env opts = Inl e"
  using assms by (simp_all add: main_def main_document_def)

lemma fatal_is_line: "fatal msg = ''compose: '' @ msg @ newline"
  by (simp add: fatal_def)

subsection \<open>The float64 operations of the replica count\<close>

lemma round_half_even_ge: "of_int K \<le> y \<Longrightarrow> K \<le> round_half_even y"
proof -
  assume "of_int K \<le> y"
  then have "K \<le> \<lfloor>y\<rfloor>" by (simp add: le_floor_iff)
  moreover have "\<lfloor>y\<rfloor> \<le> round_half_even y" by (simp add: round_half_even_def Let_def)
  ultimately show ?thesis by simp
qed

lemma round_half_even_le: "y \<le> of_int K \<Longrightarrow> round_half_even y \<le> K"
proof (cases "y = of_int \<lfloor>y\<rfloor>")
  case True
  assume "y \<le> of_int K"
  then have "of_int \<lfloor>y\<rfloor> \<le> (of_int K :: rat)" using True by simp
  then have "\<lfloor>y\<rfloor> \<le> K" by (simp only: of_int_le_iff)
  moreover have "round_half_even y = \<lfloor>y\<rfloor>" using True by (simp add: round_half_even_def Let_def)
  ultimately show ?thesis by simp
next
  case False
  assume a: "y \<le> of_int K"
  have "of_int \<lfloor>y\<rfloor> < y" using False of_int_floor_le[of y] by linarith
  then have "of_int \<lfloor>y\<rfloor> < (of_int K :: rat)" using a by linarith
  then have "\<lfloor>y\<rfloor> < K" by (simp only: of_int_less_iff)
  moreover have "round_half_even y \<le> \<lfloor>y\<rfloor> + 1" by (simp add: round_half_even_def Let_def)
  ultimately show ?thesis by simp
qed

lemma ilog2_bounds_ge1:
  assumes "1 \<le> q"
  shows "2 powi (ilog2 q) \<le> q \<and> q < 2 powi (ilog2 q + 1)"
proof -
  let ?n = "nat \<lfloor>q\<rfloor>"
  have fq: "1 \<le> \<lfloor>q\<rfloor>" using assms by (simp add: le_floor_iff)
  then have n: "0 < ?n" by simp
  let ?t = "floorlog 2 ?n"
  have b: "2 ^ (?t - 1) \<le> ?n" "?n < 2 ^ ?t"
    using floorlog_bounds[of ?n 2] n by simp_all
  have t: "0 < ?t"
  proof (rule ccontr)
    assume "\<not> 0 < ?t"
    then have "?t = 0" by simp
    then show False using n by (simp add: floorlog_eq_zero_iff)
  qed
  have e: "ilog2 q = int ?t - 1" using assms by (simp add: ilog2_def)
  have e1: "ilog2 q = int (?t - 1)" using t e by (simp add: of_nat_diff)
  have p1: "(2::rat) powi (ilog2 q) = 2 ^ (?t - 1)"
    unfolding e1 by (rule power_int_of_nat)
  have e2: "ilog2 q + 1 = int ?t" using e by simp
  have p2: "(2::rat) powi (ilog2 q + 1) = 2 ^ ?t"
    unfolding e2 by (rule power_int_of_nat)
  have nq: "(of_nat ?n :: rat) = of_int \<lfloor>q\<rfloor>" using fq by simp
  have "(of_nat (2 ^ (?t - 1)) :: rat) \<le> of_nat ?n" using b(1) by (simp only: of_nat_le_iff)
  then have "(2::rat) ^ (?t - 1) \<le> of_nat ?n" by simp
  also have "\<dots> \<le> q" unfolding nq by (rule of_int_floor_le)
  finally have l: "2 powi (ilog2 q) \<le> q" by (simp only: p1)
  have "?n + 1 \<le> 2 ^ ?t" using b(2) by linarith
  then have "(of_nat (?n + 1) :: rat) \<le> of_nat (2 ^ ?t)" by (simp only: of_nat_le_iff)
  then have "(of_nat ?n :: rat) + 1 \<le> 2 ^ ?t" by simp
  moreover have "q < of_int \<lfloor>q\<rfloor> + 1" by linarith
  ultimately have "q < 2 ^ ?t" unfolding nq by linarith
  then have "q < 2 powi (ilog2 q + 1)" by (simp only: p2)
  with l show ?thesis by simp
qed

lemma ilog2_bounds_lt1:
  assumes "0 < q" "q < 1"
  shows "2 powi (ilog2 q) \<le> q \<and> q < 2 powi (ilog2 q + 1)"
proof -
  let ?y = "1 / q"
  let ?c = "nat \<lceil>?y\<rceil>"
  have iq: "1 < ?y" using assms by simp
  have cy: "1 < \<lceil>?y\<rceil>" using iq by (simp add: less_ceiling_iff)
  then have c2: "2 \<le> ?c" by linarith
  have cq: "(of_nat ?c :: rat) = of_int \<lceil>?y\<rceil>" using cy by simp
  let ?t = "floorlog 2 (?c - 1)"
  have c1: "0 < ?c - 1" using c2 by linarith
  have two: "(1::nat) < 2" by simp
  note fb = floorlog_bounds[OF c1 two]
  have b: "2 ^ (?t - 1) \<le> ?c - 1" "?c - 1 < 2 ^ ?t"
    using fb by blast+
  have t: "0 < ?t"
  proof (rule ccontr)
    assume "\<not> 0 < ?t"
    then have "?t = 0" by simp
    then show False using c2 by (simp add: floorlog_eq_zero_iff)
  qed
  have e: "ilog2 q = - int ?t" using assms by (simp add: ilog2_def)
  have "?c \<le> 2 ^ ?t" using b(2) by linarith
  then have "(of_nat ?c :: rat) \<le> of_nat (2 ^ ?t)" by (simp only: of_nat_le_iff)
  then have "(of_nat ?c :: rat) \<le> 2 ^ ?t" by simp
  moreover have "?y \<le> of_int \<lceil>?y\<rceil>" by (rule le_of_int_ceiling)
  ultimately have u: "?y \<le> 2 ^ ?t" unfolding cq by linarith
  have pos: "(0::rat) < 2 ^ ?t" "(0::rat) < 2 ^ (?t - 1)" by simp_all
  have p1: "(2::rat) powi (ilog2 q) = inverse (2 ^ ?t)"
    unfolding e by (simp add: power_int_minus)
  have ypos: "0 < ?y" using assms(1) by simp
  have "inverse ((2::rat) ^ ?t) \<le> inverse ?y"
    using u ypos by (rule le_imp_inverse_le)
  then have l: "2 powi (ilog2 q) \<le> q" unfolding p1 by (simp add: inverse_eq_divide)
  have "(of_nat (2 ^ (?t - 1)) :: rat) \<le> of_nat (?c - 1)"
    using b(1) by (simp only: of_nat_le_iff)
  then have "(2::rat) ^ (?t - 1) \<le> of_nat ?c - 1" using c2 by (simp add: of_nat_diff)
  moreover have "of_int \<lceil>?y\<rceil> - 1 < ?y" by linarith
  ultimately have w: "(2::rat) ^ (?t - 1) < ?y" unfolding cq by linarith
  have e2: "ilog2 q + 1 = - int (?t - 1)" using t e by (simp add: of_nat_diff)
  have p2: "(2::rat) powi (ilog2 q + 1) = inverse (2 ^ (?t - 1))"
    unfolding e2 by (simp add: power_int_minus)
  have "inverse ?y < inverse ((2::rat) ^ (?t - 1))"
    using w pos(2) by (rule less_imp_inverse_less)
  then have "q < 2 powi (ilog2 q + 1)" unfolding p2 by (simp add: inverse_eq_divide)
  with l show ?thesis by simp
qed

lemma ilog2_bounds:
  "0 < q \<Longrightarrow> 2 powi (ilog2 q) \<le> q \<and> q < 2 powi (ilog2 q + 1)"
  using ilog2_bounds_ge1[of q] ilog2_bounds_lt1[of q] by (cases "1 \<le> q") simp_all

lemma powi_split: "(2::rat) powi j = 2 powi (j - d) * 2 powi d"
proof -
  have "(2::rat) powi ((j - d) + d) = 2 powi (j - d) * 2 powi d"
    by (rule power_int_add) simp
  then show ?thesis by simp
qed

lemma multiple_of_quantum:
  assumes "d \<le> j"
  shows "\<exists>K. (of_int k :: rat) * 2 powi j = of_int K * 2 powi d"
proof -
  have "(2::rat) powi (j - d) = 2 ^ nat (j - d)"
    using assms by (simp add: power_int_nonneg_exp)
  also have "\<dots> = of_int (2 ^ nat (j - d))" by simp
  finally have "(of_int k :: rat) * 2 powi j = of_int (k * 2 ^ nat (j - d)) * 2 powi d"
    by (subst powi_split[of j d]) simp
  then show ?thesis by blast
qed

lemma below_binade:
  assumes k: "0 < k" "k < 2 ^ 53" and j: "j + 53 \<le> e"
  shows "(of_int k :: rat) * 2 powi j < 2 powi e"
proof -
  have "(of_int k :: rat) < of_int (2 ^ 53)" using k(2) by (simp only: of_int_less_iff)
  then have "(of_int k :: rat) < 2 ^ 53" by simp
  then have "(of_int k :: rat) * 2 powi j < 2 ^ 53 * 2 powi j"
    by (rule mult_strict_right_mono) simp
  also have "\<dots> = 2 powi (j + 53)"
  proof -
    have "(2::rat) powi (j + 53) = 2 powi j * 2 powi 53" by (rule power_int_add) simp
    then show ?thesis by simp
  qed
  also have "\<dots> \<le> 2 powi e" using j by (intro power_int_increasing) simp_all
  finally show ?thesis .
qed

lemma round_float64_sandwich:
  fixes q :: rat
  assumes q: "0 < q"
    and lo: "lo = of_int k1 * 2 powi j1" "0 < k1" "k1 < 2 ^ 53" "- 1074 \<le> j1" "lo \<le> q"
    and hi: "hi = of_int k2 * 2 powi j2" "0 < k2" "k2 < 2 ^ 53" "- 1074 \<le> j2" "q \<le> hi"
            "hi < 2 powi 1024"
  shows "\<exists>r. round_float64 q = Finite r \<and> lo \<le> r \<and> r \<le> hi"
proof -
  define e where "e = max (ilog2 q) (- 1022)"
  define u where "u = (2::rat) powi (e - 52)"
  define m where "m = round_half_even (q / u)"
  have u_pos: "0 < u" by (simp add: u_def)
  have b: "2 powi (ilog2 q) \<le> q" "q < 2 powi (ilog2 q + 1)"
    using ilog2_bounds[OF q] by simp_all
  have lo_pos: "0 < lo" unfolding lo(1) using lo(2) by simp
  have clamp: "e = ilog2 q" if "j + 53 \<le> e" "- 1074 \<le> j" for j
    using that unfolding e_def by linarith
  \<comment> \<open>the upper bound is a multiple of the quantum\<close>
  have j2: "e - 52 \<le> j2"
  proof (rule ccontr)
    assume "\<not> e - 52 \<le> j2"
    then have s: "j2 + 53 \<le> e" by simp
    have "hi < 2 powi e" unfolding hi(1) by (rule below_binade[OF hi(2,3) s])
    also have "\<dots> \<le> q" using b(1) clamp[OF s hi(4)] by simp
    finally show False using hi(5) by simp
  qed
  obtain K2 where K2: "hi = of_int K2 * u"
    using multiple_of_quantum[OF j2, of k2] unfolding hi(1) u_def by blast
  have "q / u \<le> of_int K2" using hi(5) u_pos unfolding K2 by (simp add: field_simps)
  then have "m \<le> K2" unfolding m_def by (rule round_half_even_le)
  then have "(of_int m :: rat) \<le> of_int K2" by (simp only: of_int_le_iff)
  then have up: "of_int m * u \<le> hi" unfolding K2 using u_pos by (simp add: mult_right_mono)
  \<comment> \<open>the lower bound is a multiple of the quantum, or lies below the binade of \<open>q\<close>\<close>
  have low: "lo \<le> of_int m * u"
  proof (cases "e - 52 \<le> j1")
    case True
    obtain K1 where K1: "lo = of_int K1 * u"
      using multiple_of_quantum[OF True, of k1] unfolding lo(1) u_def by blast
    have "of_int K1 \<le> q / u" using lo(5) u_pos unfolding K1 by (simp add: field_simps)
    then have "K1 \<le> m" unfolding m_def by (rule round_half_even_ge)
    then have "(of_int K1 :: rat) \<le> of_int m" by (simp only: of_int_le_iff)
    then show ?thesis unfolding K1 using u_pos by (simp add: mult_right_mono)
  next
    case False
    then have s: "j1 + 53 \<le> e" by simp
    have eq: "e = ilog2 q" by (rule clamp[OF s lo(4)])
    have "lo < 2 powi e" unfolding lo(1) by (rule below_binade[OF lo(2,3) s])
    moreover have pe: "(2::rat) powi e = of_int (2 ^ 52) * u"
      unfolding u_def by (subst powi_split[of e "e - 52"]) simp
    moreover have "of_int (2 ^ 52) * u \<le> of_int m * u"
    proof -
      have "of_int (2 ^ 52) * u \<le> q" using b(1) eq pe by simp
      then have "of_int (2 ^ 52) \<le> q / u" using u_pos by (simp add: field_simps)
      then have "2 ^ 52 \<le> m" unfolding m_def by (rule round_half_even_ge)
      then have "(of_int (2 ^ 52) :: rat) \<le> of_int m" by (simp only: of_int_le_iff)
      then show ?thesis using u_pos by (simp add: mult_right_mono)
    qed
    ultimately show ?thesis by linarith
  qed
  have r_pos: "0 < of_int m * u" using lo_pos low by linarith
  have fin: "\<not> 2 powi 1024 \<le> \<bar>of_int m * u\<bar>" using r_pos up hi(6) by linarith
  have "round_float64 q = Finite (of_int m * u)"
    using q fin unfolding round_float64_def Let_def m_def u_def e_def by simp
  then show ?thesis using low up by blast
qed

lemma float64_of_int_exact:
  assumes "0 < n" "n < 2 ^ 53"
  shows "float64_of_int n = Finite (of_int n)"
proof -
  have p: "(0::rat) < of_int n" using assms(1) by simp
  have v: "(of_int n :: rat) = of_int n * 2 powi 0" by simp
  have "(of_int n :: rat) < of_int (2 ^ 53)" using assms(2) by (simp only: of_int_less_iff)
  then have "(of_int n :: rat) < 2 ^ 53" by simp
  also have "\<dots> \<le> 2 ^ 1024" by (rule power_increasing) simp_all
  finally have h: "(of_int n :: rat) < 2 powi 1024" by simp
  from round_float64_sandwich[OF p v assms _ _ v assms _ _ h]
  obtain r where "round_float64 (of_int n) = Finite r" "of_int n \<le> r" "r \<le> of_int n"
    by auto
  then show ?thesis by (simp add: float64_of_int_def)
qed

lemma float64_of_int_large:
  assumes "100 \<le> n" "n < 2 ^ 63"
  shows "\<exists>g. float64_of_int n = Finite g \<and> 100 \<le> g \<and> g \<le> 2 ^ 63"
proof -
  have p: "(0::rat) < of_int n" using assms(1) by simp
  have lo: "(100::rat) = of_int 100 * 2 powi 0" by simp
  have hi: "(2::rat) ^ 63 = of_int 1 * 2 powi 63" by simp
  have l: "(100::rat) \<le> of_int n" using assms(1) by simp
  have "(of_int n :: rat) \<le> of_int (2 ^ 63)" using assms(2) by (simp only: of_int_le_iff)
  then have u: "(of_int n :: rat) \<le> 2 ^ 63" by simp
  have "(2::rat) ^ 63 < 2 ^ 1024" by (rule power_strict_increasing) simp_all
  then have h: "(2::rat) ^ 63 < 2 powi 1024" by simp
  from round_float64_sandwich[OF p lo _ _ _ l hi _ _ _ u h]
  show ?thesis by (simp add: float64_of_int_def)
qed

lemma round_quotient_small:
  assumes a: "1 \<le> a" "a \<le> 99" and g: "1 \<le> g" "g \<le> 99"
  shows "\<exists>r. round_float64 (of_int a / of_int g) = Finite r \<and>
             \<lceil>r\<rceil> = \<lceil>(of_int a :: rat) / of_int g\<rceil>"
proof -
  let ?q = "(of_int a :: rat) / of_int g"
  define c where "c = \<lceil>?q\<rceil>"
  have gp: "(0::rat) < of_int g" using g(1) by simp
  have qp: "0 < ?q" using a(1) gp by simp
  have q_le: "?q \<le> of_int c" unfolding c_def by (rule le_of_int_ceiling)
  have "?q \<le> of_int a" using a(1) g(1) gp by (simp add: field_simps mult_le_cancel_left1)
  then have "c \<le> a" unfolding c_def by (simp add: ceiling_le_iff)
  then have c99: "c \<le> 99" using a(2) by simp
  have c1: "1 \<le> c" unfolding c_def using qp by (simp add: le_ceiling_iff)
  have "of_int c - 1 < ?q" unfolding c_def by linarith
  then have "of_int (c - 1) * of_int g < (of_int a :: rat)" using gp by (simp add: field_simps)
  then have "(of_int ((c - 1) * g) :: rat) < of_int a" by simp
  then have "(c - 1) * g < a" by (simp only: of_int_less_iff)
  then have "(c - 1) * g + 1 \<le> a" by simp
  then have "(of_int ((c - 1) * g + 1) :: rat) \<le> of_int a" by (simp only: of_int_le_iff)
  then have "of_int (c - 1) * of_int g + 1 \<le> (of_int a :: rat)" by simp
  then have "(of_int (c - 1) * of_int g + 1) / of_int g \<le> ?q"
    using gp by (intro divide_right_mono) simp_all
  moreover have "(of_int (c - 1) * of_int g + 1) / (of_int g :: rat) = of_int (c - 1) + 1 / of_int g"
    using gp by (simp add: add_divide_distrib)
  ultimately have "of_int (c - 1) + 1 / of_int g \<le> ?q" by simp
  moreover have "1 / 128 \<le> 1 / (of_int g :: rat)" using g gp by (simp add: field_simps)
  ultimately have lo_le: "of_int (c - 1) + 1 / 128 \<le> ?q" by linarith
  have lo: "(of_int (c - 1) + 1 / 128 :: rat) = of_int (128 * (c - 1) + 1) * 2 powi (- 7)"
    by (simp add: power_int_minus field_simps)
  have hi: "(of_int c :: rat) = of_int c * 2 powi 0" by simp
  have k1: "0 < 128 * (c - 1) + 1" "128 * (c - 1) + 1 < 2 ^ 53" using c1 c99 by simp_all
  have k2: "0 < c" "c < 2 ^ 53" using c1 c99 by simp_all
  have "(of_int c :: rat) \<le> 99" using c99 by simp
  also have "(99::rat) < 2 ^ 1024"
  proof -
    have "(99::rat) < 2 ^ 7" by simp
    also have "\<dots> \<le> 2 ^ 1024" by (rule power_increasing) simp_all
    finally show ?thesis .
  qed
  finally have h: "(of_int c :: rat) < 2 powi 1024" by simp
  from round_float64_sandwich[OF qp lo k1 _ lo_le hi k2 _ q_le h]
  obtain r where r: "round_float64 ?q = Finite r" "of_int (c - 1) + 1 / 128 \<le> r" "r \<le> of_int c"
    by auto
  have "\<lceil>r\<rceil> = c" using r(2,3) by (intro ceiling_unique) simp_all
  then show ?thesis using r(1) unfolding c_def by blast
qed

lemma round_quotient_large:
  assumes a: "1 \<le> a" "a \<le> 99" and g: "100 \<le> g" "g \<le> 2 ^ 63"
  shows "\<exists>r. round_float64 (of_int a / g) = Finite r \<and> \<lceil>r\<rceil> = 1"
proof -
  let ?q = "(of_int a :: rat) / g"
  have gp: "0 < g" using g(1) by simp
  have qp: "0 < ?q" using a(1) gp by simp
  have lo: "(1 / 2 ^ 63 :: rat) = of_int 1 * 2 powi (- 63)"
    by (simp add: power_int_minus field_simps)
  have hi: "(1::rat) = of_int 1 * 2 powi 0" by simp
  have "1 / 2 ^ 63 \<le> 1 / g" using g(2) gp by (simp add: field_simps)
  also have "\<dots> \<le> ?q" using a(1) gp by (simp add: field_simps)
  finally have lo_le: "1 / 2 ^ 63 \<le> ?q" .
  have "(of_int a :: rat) \<le> 99" using a(2) by simp
  then have q_le: "?q \<le> 1" using g(1) gp by (simp add: field_simps)
  have h: "(1::rat) < 2 powi 1024" by (simp add: one_less_power)
  from round_float64_sandwich[OF qp lo _ _ _ lo_le hi _ _ _ q_le h]
  obtain r where r: "round_float64 ?q = Finite r" "1 / 2 ^ 63 \<le> r" "r \<le> 1"
    by auto
  have "0 < r" using r(2) by (rule less_le_trans[rotated]) simp
  then have "\<lceil>r\<rceil> = 1" using r(3) by (intro ceiling_unique) simp_all
  then show ?thesis using r(1) by blast
qed

lemma float64_replicas_exact:
  assumes a: "1 \<le> a" "a \<le> 99" and g: "1 \<le> g" "g < 2 ^ 63"
  shows "int_of_float64 unrep
           (math_Ceil (float64_div (float64_of_int a) (float64_of_int g))) =
         \<lceil>(of_int a :: rat) / of_int g\<rceil>"
proof -
  have fa: "float64_of_int a = Finite (of_int a)"
    using a by (intro float64_of_int_exact) simp_all
  define c where "c = \<lceil>(of_int a :: rat) / of_int g\<rceil>"
  have c_bounds: "1 \<le> c" "c \<le> 99"
  proof -
    have gp: "(0::rat) < of_int g" using g(1) by simp
    have "(of_int a :: rat) / of_int g \<le> of_int a"
      using a(1) g(1) gp by (simp add: field_simps mult_le_cancel_left1)
    then have "c \<le> a" unfolding c_def by (simp add: ceiling_le_iff)
    then show "c \<le> 99" using a(2) by simp
    have "0 < (of_int a :: rat) / of_int g" using a(1) gp by simp
    then show "1 \<le> c" unfolding c_def by (simp add: le_ceiling_iff)
  qed
  have c_rng: "go_int c" using c_bounds by (simp add: go_int_def)
  show ?thesis
  proof (cases "g \<le> 99")
    case True
    have fg: "float64_of_int g = Finite (of_int g)"
      using g(1) True by (intro float64_of_int_exact) simp_all
    obtain r where r: "round_float64 (of_int a / of_int g) = Finite r" "\<lceil>r\<rceil> = c"
      using round_quotient_small[OF a g(1) True] unfolding c_def by blast
    have g0: "g \<noteq> 0" using g(1) by simp
    have "float64_div (float64_of_int a) (float64_of_int g) = Finite r"
      by (simp add: fa fg g0 r(1))
    then have "math_Ceil (float64_div (float64_of_int a) (float64_of_int g)) = Finite (of_int c)"
      by (simp add: r(2))
    then have "int_of_float64 unrep
           (math_Ceil (float64_div (float64_of_int a) (float64_of_int g))) = c"
      using c_rng c_bounds by (simp add: int_of_float64_def)
    then show ?thesis by (simp only: c_def)
  next
    case False
    then have g100: "100 \<le> g" by simp
    obtain g' where fg: "float64_of_int g = Finite g'" and b: "100 \<le> g'" "g' \<le> 2 ^ 63"
      using float64_of_int_large[OF g100 g(2)] by blast
    obtain r where r: "round_float64 (of_int a / g') = Finite r" "\<lceil>r\<rceil> = 1"
      using round_quotient_large[OF a b] by blast
    have g0: "g' \<noteq> 0" using b(1) by simp
    have c1: "c = 1" unfolding c_def
    proof (rule ceiling_unique)
      have gp: "(0::rat) < of_int g" using g(1) by simp
      show "of_int 1 - 1 < (of_int a :: rat) / of_int g" using a(1) gp by simp
      have "(of_int a :: rat) \<le> of_int g" using a(2) g100 by simp
      then show "(of_int a :: rat) / of_int g \<le> of_int 1" using gp by (simp add: field_simps)
    qed
    have "float64_div (float64_of_int a) (float64_of_int g) = Finite r"
      by (simp add: fa fg g0 r(1))
    then have "math_Ceil (float64_div (float64_of_int a) (float64_of_int g)) = Finite (of_int c)"
      by (simp add: r(2) c1)
    then have "int_of_float64 unrep
           (math_Ceil (float64_div (float64_of_int a) (float64_of_int g))) = c"
      using c_rng c_bounds by (simp add: int_of_float64_def)
    then show ?thesis by (simp only: c_def)
  qed
qed

lemma ceiling_as_div:
  assumes "0 < g"
  shows "\<lceil>(of_int a :: rat) / of_int g\<rceil> = (a + g - 1) div g"
proof -
  have d: "g * (a div g) + a mod g = a" by simp
  have "\<lceil>(of_int a :: rat) / of_int g\<rceil> = - (- a div g)" by (rule ceiling_divide_eq_div)
  also have "\<dots> = (a + g - 1) div g"
  proof (cases "a mod g = 0")
    case True
    then have "- (- a div g) = a div g" using assms by (simp add: zdiv_zminus1_eq_if)
    moreover have "a + g - 1 = g * (a div g) + (g - 1)" using True d by linarith
    then have "(a + g - 1) div g = a div g"
      using assms by (intro int_div_pos_eq[where r = "g - 1"]) simp_all
    ultimately show ?thesis by simp
  next
    case False
    then have "- (- a div g) = a div g + 1" using assms by (simp add: zdiv_zminus1_eq_if)
    moreover have m: "0 < a mod g" "a mod g < g"
      using False pos_mod_sign[OF assms, of a] pos_mod_bound[OF assms, of a] by linarith+
    have "g * (a div g + 1) = g * (a div g) + g" by (simp add: algebra_simps)
    then have "a + g - 1 = g * (a div g + 1) + (a mod g - 1)" using d by linarith
    then have "(a + g - 1) div g = a div g + 1"
      using assms m by (intro int_div_pos_eq[where r = "a mod g - 1"]) simp_all
    ultimately show ?thesis by simp
  qed
  finally show ?thesis .
qed

lemma replicas_exact:
  assumes "1 \<le> NumAlphas opts" "NumAlphas opts \<le> 99" "1 \<le> NumGroups opts"
    "go_int (NumGroups opts)"
  shows "replicas env opts = \<lceil>(of_int (NumAlphas opts) :: rat) / of_int (NumGroups opts)\<rceil>"
proof -
  have "NumGroups opts < 2 ^ 63" using assms(4) by (simp add: go_int_def)
  from float64_replicas_exact[OF assms(1,2,3) this] show ?thesis by (simp only: replicas_def)
qed

lemma initService_env:
  assumes "UserOwnership opts \<longrightarrow> user_Current e1 = user_Current e2"
  shows "initService e1 opts b i p = initService e2 opts b i p"
proof (cases "UserOwnership opts")
  case True
  then have eq: "user_Current e1 = user_Current e2" using assms by simp
  show ?thesis unfolding initService_def eq by (rule refl)
next
  case False
  then have f: "UserOwnership opts = False" by simp
  show ?thesis unfolding initService_def f if_False by (rule refl)
qed

lemma replicas_env:
  "float_to_int_unrep e1 = float_to_int_unrep e2 \<Longrightarrow> replicas e1 opts = replicas e2 opts"
  by (simp add: replicas_def)

lemma getZero_env:
  assumes "UserOwnership opts \<longrightarrow> user_Current e1 = user_Current e2"
    and "replicas e1 opts = replicas e2 opts"
  shows "getZero e1 opts i = getZero e2 opts i"
  unfolding getZero_def initService_env[OF assms(1)] assms(2) by (rule refl)

lemma getAlpha_env:
  assumes "UserOwnership opts \<longrightarrow> user_Current e1 = user_Current e2"
  shows "getAlpha e1 opts i = getAlpha e2 opts i"
  unfolding getAlpha_def initService_env[OF assms(1)] by (rule refl)

lemma main_zeros_env:
  assumes "UserOwnership opts \<longrightarrow> user_Current e1 = user_Current e2"
    and "replicas e1 opts = replicas e2 opts"
  shows "main_zeros e1 opts i m = main_zeros e2 opts i m"
  using assms
proof (induction e1 opts i m rule: main_zeros.induct)
  case (1 e1 opts i m)
  note g = getZero_env[OF "1.prems", of i]
  show ?case
  proof (cases "i \<le> NumZeros opts")
    case False
    then show ?thesis
      by (simp add: main_zeros.simps[of e1 opts i] main_zeros.simps[of e2 opts i])
  next
    case True
    show ?thesis
    proof (cases "getZero e1 opts i")
      case (Inl err)
      then show ?thesis using True g
        by (simp add: main_zeros.simps[of e1 opts i] main_zeros.simps[of e2 opts i])
    next
      case (Inr z)
      have l: "main_zeros e1 opts i m = main_zeros e1 opts (i + 1) (m(svc_name z \<mapsto> z))"
        using True Inr by (subst main_zeros.simps) simp
      have r: "main_zeros e2 opts i m = main_zeros e2 opts (i + 1) (m(svc_name z \<mapsto> z))"
        using True Inr g by (subst main_zeros.simps) simp
      show ?thesis unfolding l r by (rule "1.IH"[OF True Inr "1.prems"])
    qed
  qed
qed

lemma main_alphas_env:
  assumes "UserOwnership opts \<longrightarrow> user_Current e1 = user_Current e2"
  shows "main_alphas e1 opts i m = main_alphas e2 opts i m"
  using assms
proof (induction e1 opts i m rule: main_alphas.induct)
  case (1 e1 opts i m)
  note g = getAlpha_env[OF "1.prems", of i]
  show ?case
  proof (cases "i \<le> NumAlphas opts")
    case False
    then show ?thesis
      by (simp add: main_alphas.simps[of e1 opts i] main_alphas.simps[of e2 opts i])
  next
    case True
    show ?thesis
    proof (cases "getAlpha e1 opts i")
      case (Inl err)
      then show ?thesis using True g
        by (simp add: main_alphas.simps[of e1 opts i] main_alphas.simps[of e2 opts i])
    next
      case (Inr z)
      have l: "main_alphas e1 opts i m = main_alphas e1 opts (i + 1) (m(svc_name z \<mapsto> z))"
        using True Inr by (subst main_alphas.simps) simp
      have r: "main_alphas e2 opts i m = main_alphas e2 opts (i + 1) (m(svc_name z \<mapsto> z))"
        using True Inr g by (subst main_alphas.simps) simp
      show ?thesis unfolding l r by (rule "1.IH"[OF True Inr "1.prems"])
    qed
  qed
qed

lemma main_config_env:
  assumes "UserOwnership opts \<longrightarrow> user_Current e1 = user_Current e2"
    and "replicas e1 opts = replicas e2 opts"
  shows "main_config e1 opts = main_config e2 opts"
  unfolding main_config_def main_zeros_env[OF assms] main_alphas_env[OF assms(1)] by (rule refl)

lemma main_checks_fails:
  assumes "\<not> valid_options opts"
  shows "\<exists>w e. main_checks opts = (w, Inl e)"
proof -
  from main_checks_invalid[OF assms] obtain e where
    "snd (main_checks (opts\<lparr> AclSecret := AclSecret opts \<rparr>)) = Inl e" by blast
  then have "snd (main_checks opts) = Inl e" by simp
  then show ?thesis by (cases "main_checks opts") auto
qed

lemma initService_User:
  assumes "initService env opts b i p = Inr svc" "UserOwnership opts" "user_Current env = Inr uid"
  shows "User svc = ''${UID:-'' @ uid @ ''}''"
  using assms by (cases "Jaeger opts") (auto simp: initService_def Let_def)

lemma getZero_User:
  assumes g: "getZero env opts i = Inr z" and u: "UserOwnership opts" "user_Current env = Inr uid"
  shows "User z = ''${UID:-'' @ uid @ ''}''"
proof -
  obtain svc where s: "initService env opts ''zero'' i (zeroBasePort + getOffset i) = Inr svc"
    using g by (rule getZero_cases)
  from g s have "User z = User svc"
    by (cases "TempFS opts"; cases "i = 1") (auto simp: getZero_def Let_def)
  then show ?thesis using initService_User[OF s u] by simp
qed

lemma zero1_user_in_document:
  assumes v: "valid_options opts" and u: "UserOwnership opts" "user_Current env = Inr uid"
  shows "map_option User (Services (projr (main_document env opts)) ''zero1'') =
           Some (''${UID:-'' @ uid @ ''}'')"
proof -
  have ok: "lookup_ok env opts" using u(2) by (simp add: lookup_ok_def)
  from builder_document[OF v ok] obtain cfg where
    d: "main_document env opts = Inr cfg"
    and zs: "\<forall>i\<in>{1..NumZeros opts}.
        \<exists>z. getZero env (resolved opts) i = Inr z \<and> Services cfg (name ''zero'' i) = Some z"
    by blast
  have m: "(1::int) \<in> {1..NumZeros opts}" using v by (simp add: valid_options_def)
  from zs m obtain z where z: "getZero env (resolved opts) 1 = Inr z"
    and "Services cfg (name ''zero'' 1) = Some z"
    by blast
  then have z2: "Services cfg ''zero1'' = Some z" by (simp only: name_zero1)
  have "User z = ''${UID:-'' @ uid @ ''}''"
    by (rule getZero_User[OF z]) (use u in \<open>simp_all add: resolved_simps\<close>)
  then show ?thesis using d z2 by simp
qed

lemma different_users_different_documents:
  assumes v: "valid_options opts" and u: "UserOwnership opts"
    and c: "user_Current e1 = Inr uid1" "user_Current e2 = Inr uid2" and n: "uid1 \<noteq> uid2"
  shows "main_document e1 opts \<noteq> main_document e2 opts"
proof
  assume "main_document e1 opts = main_document e2 opts"
  then have "map_option User (Services (projr (main_document e1 opts)) ''zero1'') =
      map_option User (Services (projr (main_document e2 opts)) ''zero1'')"
    by (rule arg_cong)
  then have "Some (''${UID:-'' @ uid1 @ ''}'') = Some (''${UID:-'' @ uid2 @ ''}'')"
    by (simp only: zero1_user_in_document[OF v u c(1)] zero1_user_in_document[OF v u c(2)])
  then show False using n by simp
qed

lemma replicas_resolved: "replicas env (resolved opts) = replicas env opts"
  by (simp add: replicas_def resolved_def)

lemma main_document_env:
  assumes "UserOwnership opts \<longrightarrow> user_Current e1 = user_Current e2"
    and "valid_options opts \<longrightarrow> replicas e1 opts = replicas e2 opts"
  shows "main_document e1 opts = main_document e2 opts"
proof (cases "valid_options opts")
  case False
  then obtain w e where "main_checks opts = (w, Inl e)" using main_checks_fails by blast
  then show ?thesis by (simp add: main_checks_error(2))
next
  case True
  have u: "UserOwnership (resolved opts) \<longrightarrow> user_Current e1 = user_Current e2"
    using assms(1) by (simp add: resolved_simps)
  have r: "replicas e1 (resolved opts) = replicas e2 (resolved opts)"
    using assms(2) True by (simp add: replicas_resolved)
  show ?thesis
    unfolding main_document_valid[OF True] by (rule main_config_env[OF u r])
qed

lemma replicas_platform:
  assumes "valid_options opts" and "1 \<le> NumGroups opts" and "go_int (NumGroups opts)"
  shows "replicas e1 opts = replicas e2 opts"
proof -
  have a: "1 \<le> NumAlphas opts" "NumAlphas opts \<le> 99"
    using assms(1) by (simp_all add: valid_options_def)
  show ?thesis
    by (simp only: replicas_exact[OF a assms(2,3)])
qed

subsection \<open>The serializer and the text of a run\<close>

lemma sort_range:
  assumes "iteration_ok r1" and "iteration_ok r2" and "finite S"
  shows "sort (r1 S) = sort (r2 S)"
proof -
  have a: "distinct (r1 S)" "set (r1 S) = S" "distinct (r2 S)" "set (r2 S) = S"
    using assms by (simp_all add: iteration_ok_def)
  show ?thesis
    by (rule sorted_distinct_set_unique) (simp_all add: a)
qed

lemma iteration_ok_sorted: "iteration_ok sorted_list_of_set"
  by (simp add: iteration_ok_def)

lemma iteration_ok_rev: "iteration_ok (\<lambda>S. rev (sorted_list_of_set S))"
  by (simp add: iteration_ok_def)

lemma sort_range_sorted:
  assumes "iteration_ok r" and "finite S"
  shows "sort (r S) = sorted_list_of_set S"
  using sort_range[OF assms(1) iteration_ok_sorted assms(2)] assms(2)
  by (simp add: sorted_sort_id)

lemma map_entries_range:
  assumes "iteration_ok (map_range e1)" and "iteration_ok (map_range e2)" and "finite (dom m)"
    and "\<forall>k v. m k = Some v \<longrightarrow> f v = g v"
  shows "map_entries e1 m f = map_entries e2 m g"
proof -
  have "(\<lambda>k. map_option (\<lambda>v. (k, f v)) (m k)) = (\<lambda>k. map_option (\<lambda>v. (k, g v)) (m k))"
  proof
    fix k
    show "map_option (\<lambda>v. (k, f v)) (m k) = map_option (\<lambda>v. (k, g v)) (m k)"
      using assms(4) by (cases "m k") simp_all
  qed
  then show ?thesis
    unfolding map_entries_def sort_range[OF assms(1,2,3)] by simp
qed

lemma map_filter_keys:
  assumes "set ks \<subseteq> dom m"
  shows "map fst (List.map_filter (\<lambda>k. map_option (\<lambda>v. (k, f v)) (m k)) ks) = ks"
  using assms by (induction ks) (auto simp: List.map_filter_simps)

lemma map_entries_keys:
  assumes "iteration_ok (map_range env)" and "finite (dom m)"
  shows "map fst (map_entries env m f) = sorted_list_of_set (dom m)"
  unfolding map_entries_def sort_range_sorted[OF assms]
  by (rule map_filter_keys) (simp add: assms(2))

lemma yaml_StringMap_range:
  assumes "iteration_ok (map_range e1)" and "iteration_ok (map_range e2)" and "finite (dom m)"
  shows "yaml_StringMap e1 m = yaml_StringMap e2 m"
  unfolding yaml_StringMap_def using map_entries_range[OF assms, of YStr YStr] by simp

lemma yaml_Service_range:
  assumes "iteration_ok (map_range e1)" and "iteration_ok (map_range e2)"
    and "finite (dom (Labels svc))"
  shows "yaml_Service e1 svc = yaml_Service e2 svc"
  unfolding yaml_Service_def yaml_StringMap_range[OF assms] by (rule refl)

lemma yaml_ComposeConfig_range:
  assumes r: "iteration_ok (map_range e1)" "iteration_ok (map_range e2)"
    and s: "finite (dom (Services cfg))"
    and l: "\<forall>k svc. Services cfg k = Some svc \<longrightarrow> finite (dom (Labels svc))"
    and v: "finite (dom (cfg_Volumes cfg))"
    and a: "\<forall>k m. cfg_Volumes cfg k = Some m \<longrightarrow> finite (dom m)"
  shows "yaml_ComposeConfig e1 cfg = yaml_ComposeConfig e2 cfg"
proof -
  have "map_entries e1 (Services cfg) (yaml_Service e1) =
        map_entries e2 (Services cfg) (yaml_Service e2)"
    using l by (intro map_entries_range[OF r s]) (blast intro: yaml_Service_range[OF r])
  moreover have "map_entries e1 (cfg_Volumes cfg) (yaml_StringMap e1) =
        map_entries e2 (cfg_Volumes cfg) (yaml_StringMap e2)"
    using a by (intro map_entries_range[OF r v]) (blast intro: yaml_StringMap_range[OF r])
  ultimately show ?thesis unfolding yaml_ComposeConfig_def by simp
qed

lemma initService_Labels:
  "initService env opts b i p = Inr svc \<Longrightarrow> Labels svc = [''cluster'' \<mapsto> ''test'']"
  by (cases "user_Current env"; cases "UserOwnership opts"; cases "Jaeger opts")
    (simp_all add: initService_def Let_def x_CheckfNoTrace_def, auto)

lemma getZero_Labels: "getZero env opts i = Inr z \<Longrightarrow> Labels z = [''cluster'' \<mapsto> ''test'']"
proof -
  assume a: "getZero env opts i = Inr z"
  then obtain svc where s: "initService env opts ''zero'' i (zeroBasePort + getOffset i) = Inr svc"
    by (rule getZero_cases)
  from a s initService_Labels[OF s] show ?thesis
    by (cases "TempFS opts"; cases "i = 1") (auto simp: getZero_def Let_def)
qed

lemma getAlpha_Labels: "getAlpha env opts i = Inr a \<Longrightarrow> Labels a = [''cluster'' \<mapsto> ''test'']"
proof -
  assume a: "getAlpha env opts i = Inr a"
  then obtain svc where s:
    "initService env opts ''alpha'' i (alphaBasePort + test_offset opts + getOffset i + 1000) = Inr svc"
    by (rule getAlpha_cases)
  from a s initService_Labels[OF s] show ?thesis
    by (cases "TestPortRange opts"; cases "TempFS opts"; cases "EnterpriseMode opts";
        cases "AclSecret opts = []")
       (auto simp: getAlpha_def Let_def test_offset_def)
qed

lemma main_zeros_finite:
  assumes "main_zeros env opts i m = Inr m'"
    and "finite (dom m)" and "\<forall>k svc. m k = Some svc \<longrightarrow> finite (dom (Labels svc))"
  shows "finite (dom m') \<and> (\<forall>k svc. m' k = Some svc \<longrightarrow> finite (dom (Labels svc)))"
  using assms
proof (induction env opts i m rule: main_zeros.induct)
  case (1 env opts i m)
  show ?case
  proof (cases "i \<le> NumZeros opts")
    case False
    then have "m' = m" using "1.prems"(1) by (simp add: main_zeros.simps[of env opts i])
    then show ?thesis using "1.prems"(2,3) by simp
  next
    case True
    show ?thesis
    proof (cases "getZero env opts i")
      case (Inl err)
      then show ?thesis using True "1.prems"(1) by (simp add: main_zeros.simps[of env opts i])
    next
      case (Inr z)
      have run: "main_zeros env opts (i + 1) (m(svc_name z \<mapsto> z)) = Inr m'"
        using True Inr "1.prems"(1) by (simp add: main_zeros.simps[of env opts i])
      have f: "finite (dom (m(svc_name z \<mapsto> z)))" using "1.prems"(2) by simp
      have l: "\<forall>k svc. (m(svc_name z \<mapsto> z)) k = Some svc \<longrightarrow> finite (dom (Labels svc))"
        using "1.prems"(3) getZero_Labels[OF Inr] by auto
      show ?thesis by (rule "1.IH"[OF True Inr run f l])
    qed
  qed
qed

lemma main_alphas_finite:
  assumes "main_alphas env opts i m = Inr m'"
    and "finite (dom m)" and "\<forall>k svc. m k = Some svc \<longrightarrow> finite (dom (Labels svc))"
  shows "finite (dom m') \<and> (\<forall>k svc. m' k = Some svc \<longrightarrow> finite (dom (Labels svc)))"
  using assms
proof (induction env opts i m rule: main_alphas.induct)
  case (1 env opts i m)
  show ?case
  proof (cases "i \<le> NumAlphas opts")
    case False
    then have "m' = m" using "1.prems"(1) by (simp add: main_alphas.simps[of env opts i])
    then show ?thesis using "1.prems"(2,3) by simp
  next
    case True
    show ?thesis
    proof (cases "getAlpha env opts i")
      case (Inl err)
      then show ?thesis using True "1.prems"(1) by (simp add: main_alphas.simps[of env opts i])
    next
      case (Inr z)
      have run: "main_alphas env opts (i + 1) (m(svc_name z \<mapsto> z)) = Inr m'"
        using True Inr "1.prems"(1) by (simp add: main_alphas.simps[of env opts i])
      have f: "finite (dom (m(svc_name z \<mapsto> z)))" using "1.prems"(2) by simp
      have l: "\<forall>k svc. (m(svc_name z \<mapsto> z)) k = Some svc \<longrightarrow> finite (dom (Labels svc))"
        using "1.prems"(3) getAlpha_Labels[OF Inr] by auto
      show ?thesis by (rule "1.IH"[OF True Inr run f l])
    qed
  qed
qed

lemma main_config_finite:
  assumes "main_config env opts = Inr cfg"
  shows "finite (dom (Services cfg))"
    and "\<forall>k svc. Services cfg k = Some svc \<longrightarrow> finite (dom (Labels svc))"
    and "finite (dom (cfg_Volumes cfg))"
    and "\<forall>k m. cfg_Volumes cfg k = Some m \<longrightarrow> finite (dom m)"
proof -
  obtain m1 where z: "main_zeros env opts 1 Map.empty = Inr m1"
    using assms by (cases "main_zeros env opts 1 Map.empty") (simp_all add: main_config_def)
  obtain m2 where a: "main_alphas env opts 1 m1 = Inr m2"
    using assms z by (cases "main_alphas env opts 1 m1") (simp_all add: main_config_def)
  have c: "cfg = \<lparr> Version = ''3.5'',
                Services = (if Jaeger opts then m2(''jaeger'' \<mapsto> getJaeger) else m2),
                cfg_Volumes = (if DataVol opts then [''data'' \<mapsto> Map.empty] else Map.empty) \<rparr>"
    using assms z a by (simp add: main_config_def)
  have f1: "finite (dom m1) \<and> (\<forall>k svc. m1 k = Some svc \<longrightarrow> finite (dom (Labels svc)))"
    by (rule main_zeros_finite[OF z]) simp_all
  have f2: "finite (dom m2) \<and> (\<forall>k svc. m2 k = Some svc \<longrightarrow> finite (dom (Labels svc)))"
    using f1 by (intro main_alphas_finite[OF a]) blast+
  have j: "finite (dom (Labels getJaeger))" by (simp add: getJaeger_def)
  show "finite (dom (Services cfg))" using f2 by (simp add: c)
  show "\<forall>k svc. Services cfg k = Some svc \<longrightarrow> finite (dom (Labels svc))"
    using f2 j by (auto simp: c)
  show "finite (dom (cfg_Volumes cfg))" by (simp add: c)
  show "\<forall>k m. cfg_Volumes cfg k = Some m \<longrightarrow> finite (dom m)"
    by (auto simp: c split: if_splits)
qed

lemma main_document_finite:
  assumes "main_document env opts = Inr cfg"
  shows "finite (dom (Services cfg))"
    and "\<forall>k svc. Services cfg k = Some svc \<longrightarrow> finite (dom (Labels svc))"
    and "finite (dom (cfg_Volumes cfg))"
    and "\<forall>k m. cfg_Volumes cfg k = Some m \<longrightarrow> finite (dom m)"
proof -
  have v: "valid_options opts"
  proof (rule ccontr)
    assume "\<not> valid_options opts"
    then obtain w e where "main_checks opts = (w, Inl e)" using main_checks_fails by blast
    then show False using assms by (simp add: main_checks_error(2))
  qed
  have c: "main_config env (resolved opts) = Inr cfg"
    using assms by (simp only: main_document_valid[OF v])
  note f = main_config_finite[OF c]
  show "finite (dom (Services cfg))" by (rule f(1))
  show "\<forall>k svc. Services cfg k = Some svc \<longrightarrow> finite (dom (Labels svc))" by (rule f(2))
  show "finite (dom (cfg_Volumes cfg))" by (rule f(3))
  show "\<forall>k m. cfg_Volumes cfg k = Some m \<longrightarrow> finite (dom m)" by (rule f(4))
qed

lemma yaml_Marshal_range:
  assumes d: "main_document env opts = Inr cfg"
    and r: "iteration_ok (map_range e1)" "iteration_ok (map_range e2)"
    and y: "yaml_emit e1 = yaml_emit e2"
  shows "yaml_Marshal e1 cfg = yaml_Marshal e2 cfg"
  unfolding yaml_Marshal_def y
    yaml_ComposeConfig_range[OF r main_document_finite[OF d]]
  by (rule refl)

lemma main_text_env:
  assumes u: "UserOwnership opts \<longrightarrow> user_Current e1 = user_Current e2"
    and p: "valid_options opts \<longrightarrow> replicas e1 opts = replicas e2 opts"
    and r: "iteration_ok (map_range e1)" "iteration_ok (map_range e2)"
    and y: "yaml_emit e1 = yaml_emit e2"
    and a: "os_Args e1 = os_Args e2"
  shows "main_text e1 opts = main_text e2 opts"
proof (cases "main_document e2 opts")
  case (Inl e)
  then show ?thesis by (simp add: main_text_def main_document_env[OF u p])
next
  case (Inr cfg)
  have d: "main_document e1 opts = Inr cfg" using Inr by (simp only: main_document_env[OF u p])
  show ?thesis
    unfolding main_text_def d Inr sum.case yaml_Marshal_range[OF Inr r y] a by (rule refl)
qed

text \<open>
  On another platform the text is the same too, as long as the group count is at least
  1: the replica count is then exact, whatever the platform gives to a conversion that
  the type cannot represent.
\<close>

lemma main_text_platform:
  assumes g: "1 \<le> NumGroups opts" "go_int (NumGroups opts)"
    and r: "iteration_ok (map_range env)"
  shows "main_text (env\<lparr> float_to_int_unrep := p \<rparr>) opts = main_text env opts"
proof (rule main_text_env)
  show "valid_options opts \<longrightarrow>
      replicas (env\<lparr> float_to_int_unrep := p \<rparr>) opts = replicas env opts"
    using replicas_platform[OF _ g] by blast
qed (use r in simp_all)

text \<open>\<^verbatim>\<open>main\<close> writes the text of \<open>main_text\<close>, or ends with its error.\<close>

lemma main_result_by_text:
  "result (main env opts) =
     (case main_text env opts of
        Inl e \<Rightarrow> Inl e
      | Inr doc \<Rightarrow>
          if OutFile opts = ''-'' then Inr (''-'', doc)
          else (case os_Create env (OutFile opts) of
                  Some err \<Rightarrow> Inl (Fatal (''unable to open file for writing: '' @ err))
                | None \<Rightarrow> Inr (OutFile opts, doc)))"
proof (cases "valid_options opts")
  case False
  then obtain w e where "main_checks opts = (w, Inl e)" using main_checks_fails by blast
  then show ?thesis by (simp add: main_checks_error main_text_def)
next
  case True
  have o: "OutFile (resolved opts) = OutFile opts" by (simp add: resolved_def)
  show ?thesis
  proof (cases "main_config env (resolved opts)")
    case (Inl e)
    then show ?thesis
      by (simp add: main_def main_text_def main_checks_valid[OF True] main_document_valid[OF True])
  next
    case (Inr cfg)
    show ?thesis
    proof (cases "yaml_Marshal env cfg")
      case (Inl err)
      then show ?thesis
        by (simp add: main_def main_text_def main_checks_valid[OF True]
              main_document_valid[OF True] Inr x_CheckfNoTrace_def)
    next
      case yml: (Inr yml)
      show ?thesis
        by (cases "os_Create env (OutFile opts)")
           (simp_all add: main_def main_text_def main_checks_valid[OF True]
              main_document_valid[OF True] Inr yml o Let_def)
    qed
  qed
qed

lemma main_result_env:
  assumes "main_text e1 opts = main_text e2 opts" and "os_Create e1 = os_Create e2"
  shows "result (main e1 opts) = result (main e2 opts)"
  unfolding main_result_by_text assms by (rule refl)

lemma document_entries:
  assumes d: "main_document env opts = Inr cfg"
    and r: "iteration_ok (map_range e1)" "iteration_ok (map_range e2)"
  shows "\<exists>ss vs.
           yaml_ComposeConfig e1 cfg =
             YMap [(''version'', YStr (Version cfg)), (''services'', YMap ss),
                   (''volumes'', YMap vs)] \<and>
           yaml_ComposeConfig e2 cfg = yaml_ComposeConfig e1 cfg \<and>
           distinct (map fst ss) \<and> set (map fst ss) = dom (Services cfg) \<and>
           distinct (map fst vs) \<and> set (map fst vs) = dom (cfg_Volumes cfg)"
proof -
  note f = main_document_finite[OF d]
  let ?ss = "map_entries e1 (Services cfg) (yaml_Service e1)"
  let ?vs = "map_entries e1 (cfg_Volumes cfg) (yaml_StringMap e1)"
  have t: "yaml_ComposeConfig e1 cfg =
      YMap [(''version'', YStr (Version cfg)), (''services'', YMap ?ss), (''volumes'', YMap ?vs)]"
    by (simp add: yaml_ComposeConfig_def)
  have e: "yaml_ComposeConfig e2 cfg = yaml_ComposeConfig e1 cfg"
    by (rule yaml_ComposeConfig_range[OF r(2) r(1) f])
  have s: "distinct (map fst ?ss)" "set (map fst ?ss) = dom (Services cfg)"
    using f(1) by (simp_all add: map_entries_keys[OF r(1) f(1)])
  have v: "distinct (map fst ?vs)" "set (map fst ?vs) = dom (cfg_Volumes cfg)"
    using f(3) by (simp_all add: map_entries_keys[OF r(1) f(3)])
  show ?thesis using t e s v by blast
qed

lemma map_of_map_filter_entries:
  assumes "distinct ks"
  shows "map_of (List.map_filter (\<lambda>k. map_option (\<lambda>v. (k, f v)) (m k)) ks) k =
           (if k \<in> set ks then map_option f (m k) else None)"
  using assms
proof (induction ks)
  case Nil
  then show ?case by (simp add: List.map_filter_simps)
next
  case (Cons a ks)
  then show ?case by (cases "m a") (auto simp: List.map_filter_simps)
qed

lemma map_of_map_entries:
  assumes "iteration_ok (map_range env)" and "finite (dom m)"
  shows "map_of (map_entries env m f) k = map_option f (m k)"
proof -
  have s: "sort (map_range env (dom m)) = sorted_list_of_set (dom m)"
    by (rule sort_range_sorted[OF assms])
  have d: "distinct (sorted_list_of_set (dom m))" by simp
  show ?thesis
    unfolding map_entries_def s map_of_map_filter_entries[OF d]
    using assms(2) by (cases "m k") auto
qed

lemma yaml_Service_user:
  assumes "yaml_Service e1 s1 = yaml_Service e2 s2"
  shows "User s1 = User s2"
proof -
  have u: "map_of (case yaml_Service e s of YMap kts \<Rightarrow> kts | _ \<Rightarrow> []) ''user'' =
      (if User s = [] then None else Some (YStr (User s)))" for e s
    by (simp add: yaml_Service_def)
  from assms have "map_of (case yaml_Service e1 s1 of YMap kts \<Rightarrow> kts | _ \<Rightarrow> []) ''user'' =
      map_of (case yaml_Service e2 s2 of YMap kts \<Rightarrow> kts | _ \<Rightarrow> []) ''user''"
    by simp
  then show ?thesis unfolding u by (auto split: if_splits)
qed

lemma yaml_ComposeConfig_user:
  assumes t: "yaml_ComposeConfig e1 c1 = yaml_ComposeConfig e2 c2"
    and r: "iteration_ok (map_range e1)" "iteration_ok (map_range e2)"
    and f: "finite (dom (Services c1))" "finite (dom (Services c2))"
    and z: "Services c1 k = Some s1" "Services c2 k = Some s2"
  shows "User s1 = User s2"
proof -
  from t have "map_entries e1 (Services c1) (yaml_Service e1) =
      map_entries e2 (Services c2) (yaml_Service e2)"
    by (simp add: yaml_ComposeConfig_def)
  then have "map_of (map_entries e1 (Services c1) (yaml_Service e1)) k =
      map_of (map_entries e2 (Services c2) (yaml_Service e2)) k"
    by simp
  then have "yaml_Service e1 s1 = yaml_Service e2 s2"
    by (simp add: map_of_map_entries[OF r(1) f(1)] map_of_map_entries[OF r(2) f(2)] z)
  then show ?thesis by (rule yaml_Service_user)
qed

text \<open>
  The dependence on the user is not one of the example: for every option set that
  passes the checks, in user-ownership mode, and with every emitter that writes
  different texts for different trees, two users with different uids get different
  texts.
\<close>

lemma different_users_different_text:
  assumes v: "valid_options opts" and u: "UserOwnership opts"
    and c: "user_Current env = Inr uid1" and n: "uid2 \<noteq> uid1"
    and r: "iteration_ok (map_range env)" and i: "inj (yaml_emit env)"
  shows "main_text (env\<lparr> user_Current := Inr uid2 \<rparr>) opts \<noteq> main_text env opts"
proof -
  let ?e2 = "env\<lparr> user_Current := Inr uid2 \<rparr>"
  have ok1: "lookup_ok env opts" using c by (simp add: lookup_ok_def)
  have ok2: "lookup_ok ?e2 opts" by (simp add: lookup_ok_def)
  obtain c1 where d1: "main_document env opts = Inr c1"
    using builder_document[OF v ok1] by blast
  obtain c2 where d2: "main_document ?e2 opts = Inr c2"
    using builder_document[OF v ok2] by blast
  have u1: "map_option User (Services c1 ''zero1'') = Some (''${UID:-'' @ uid1 @ ''}'')"
    using zero1_user_in_document[OF v u c] by (simp add: d1)
  have u2: "map_option User (Services c2 ''zero1'') = Some (''${UID:-'' @ uid2 @ ''}'')"
    using zero1_user_in_document[OF v u, of ?e2 uid2] by (simp add: d2)
  obtain s1 where s1: "Services c1 ''zero1'' = Some s1" "User s1 = ''${UID:-'' @ uid1 @ ''}''"
    using u1 by (cases "Services c1 ''zero1''") simp_all
  obtain s2 where s2: "Services c2 ''zero1'' = Some s2" "User s2 = ''${UID:-'' @ uid2 @ ''}''"
    using u2 by (cases "Services c2 ''zero1''") simp_all
  have ne: "yaml_ComposeConfig ?e2 c2 \<noteq> yaml_ComposeConfig env c1"
  proof
    assume "yaml_ComposeConfig ?e2 c2 = yaml_ComposeConfig env c1"
    then have "User s2 = User s1"
      by (rule yaml_ComposeConfig_user)
         (use r main_document_finite(1)[OF d1] main_document_finite(1)[OF d2] s1(1) s2(1)
          in simp_all)
    then show False using s1(2) s2(2) n by simp
  qed
  then have "yaml_emit env (yaml_ComposeConfig ?e2 c2) \<noteq> yaml_emit env (yaml_ComposeConfig env c1)"
    using i by (simp add: inj_eq)
  then show ?thesis
    by (cases "yaml_emit env (yaml_ComposeConfig ?e2 c2)";
        cases "yaml_emit env (yaml_ComposeConfig env c1)")
       (simp_all add: main_text_def d1 d2 yaml_Marshal_def)
qed

subsection \<open>An example run in user-ownership mode\<close>

lemma example_user_options_simps:
  "NumZeros example_user_options = 1" "NumAlphas example_user_options = 1"
  "NumGroups example_user_options = 1" "LruSizeMB example_user_options = 1024"
  "EnterpriseMode example_user_options = False" "AclSecret example_user_options = []"
  "DataDir example_user_options = ''/tmp/data''" "DataVol example_user_options = False"
  "TempFS example_user_options = False" "UserOwnership example_user_options = True"
  "Jaeger example_user_options = False" "TestPortRange example_user_options = True"
  "Verbosity example_user_options = 2" "OutFile example_user_options = ''./docker-compose.yml''"
  by (simp_all add: example_user_options_def default_options_def)

lemma example_user_env_simps:
  "user_Current (example_user_env uid) = Inr uid"
  "float_to_int_unrep (example_user_env uid) = - (2 ^ 63)"
  "map_range (example_user_env uid) = sorted_list_of_set"
  "yaml_emit (example_user_env uid) = (\<lambda>t. Inr (yaml_flow t @ newline))"
  "log_prefix (example_user_env uid) = ''2019/03/01 12:00:00 ''"
  "os_Args (example_user_env uid) =
     [''compose'', ''--num_zeros=1'', ''--num_alphas=1'', ''--user'', ''--data_dir=/tmp/data'']"
  "os_Create (example_user_env uid) = (\<lambda>path. None)"
  by (simp_all add: example_user_env_def example_env_def)

lemma example_user_replicas: "replicas env example_user_options = 1"
proof -
  have "go_int (NumGroups example_user_options)"
    by (simp add: example_user_options_simps go_int_def)
  then show ?thesis by (subst replicas_exact) (simp_all add: example_user_options_simps)
qed

lemma example_user_checks: "main_checks example_user_options = ([], Inr example_user_options)"
  by (simp add: main_checks_def example_user_options_simps)

lemma fmt_d_examples:
  "fmt_d 0 = ''0''" "fmt_d 1 = ''1''" "fmt_d 2 = ''2''" "fmt_d 100 = ''100''"
  "fmt_d 1024 = ''1024''" "fmt_d 5080 = ''5080''" "fmt_d 6080 = ''6080''"
  "fmt_d 7180 = ''7180''" "fmt_d 8180 = ''8180''" "fmt_d 9180 = ''9180''"
  by (simp_all add: fmt_d_def show_nat.simps digit_char_def)

text \<open>
  The run \<^verbatim>\<open>compose --num_zeros=1 --num_alphas=1 --user --data_dir=/tmp/data\<close> of a user
  with the uid \<open>uid\<close>, in the example environment: what it leaves behind.
\<close>

lemma example_user_run:
  "main (example_user_env uid) example_user_options =
     \<lparr> err_stream = ''writing file: ./docker-compose.yml'' @ newline,
       result = Inr (''./docker-compose.yml'',
         ''# Auto-generated with: [compose --num_zeros=1 --num_alphas=1 --user --data_dir=/tmp/data]''
         @ newline @ ''#'' @ newline
         @ ''{version: 3.5, services: {''
         @ ''alpha1: {image: dgraph/dgraph:latest, container_name: alpha1, ''
         @ ''working_dir: /working/alpha1, labels: {cluster: test}, environment: [], ''
         @ ''ports: [8180:8180, 9180:9180], ''
         @ ''volumes: [{type: bind, source: $GOPATH/bin, target: /gobin, read_only: true}, ''
         @ ''{type: bind, source: /tmp/data, target: /data, read_only: false}], ''
         @ ''user: ${UID:-'' @ uid @ ''}, ''
         @ ''command: /gobin/dgraph --cwd=/data/alpha1 alpha -o 100 --my=alpha1:7180 ''
         @ ''--lru_mb=1024 --zero=zero1:5080 --logtostderr -v=2 ''
         @ ''--whitelist=10.0.0.0/8,172.16.0.0/12,192.168.0.0/16}, ''
         @ ''zero1: {image: dgraph/dgraph:latest, container_name: zero1, ''
         @ ''working_dir: /working/zero1, labels: {cluster: test}, environment: [], ''
         @ ''ports: [5080:5080, 6080:6080], ''
         @ ''volumes: [{type: bind, source: $GOPATH/bin, target: /gobin, read_only: true}, ''
         @ ''{type: bind, source: /tmp/data, target: /data, read_only: false}], ''
         @ ''user: ${UID:-'' @ uid @ ''}, ''
         @ ''command: /gobin/dgraph --cwd=/data/zero1 zero -o 0 --idx=1 --my=zero1:5080 ''
         @ ''--replicas=1 --logtostderr -v=2 --bindall}}, ''
         @ ''volumes: {}}'' @ newline) \<rparr>"
  by (simp add: main_def main_config_def main_zeros.simps[of _ _ 1] main_zeros.simps[of _ _ 2]
        main_alphas.simps[of _ _ 1] main_alphas.simps[of _ _ 2]
        getZero_def getAlpha_def initService_def Let_def name_def toExposedPort_def
        zeroBasePort_def alphaBasePort_def getOffset_def
        example_user_replicas fmt_d_examples example_user_env_simps example_user_options_simps
        example_user_checks yaml_Marshal_def yaml_ComposeConfig_def yaml_Service_def
        yaml_Volume_def yaml_StringMap_def map_entries_def List.map_filter_simps fmt_v_def
        newline_def x_CheckfNoTrace_def)

lemma example_user_result:
  "\<not> isl (result (main (example_user_env uid) example_user_options))"
  "fst (projr (result (main (example_user_env uid) example_user_options))) = ''./docker-compose.yml''"
  "contains (snd (projr (result (main (example_user_env uid) example_user_options))))
     (''user: ${UID:-'' @ uid @ ''}'')"
proof -
  show "\<not> isl (result (main (example_user_env uid) example_user_options))"
    by (simp add: example_user_run)
  show "fst (projr (result (main (example_user_env uid) example_user_options))) =
      ''./docker-compose.yml''"
    by (simp add: example_user_run)
  show "contains (snd (projr (result (main (example_user_env uid) example_user_options))))
     (''user: ${UID:-'' @ uid @ ''}'')"
    by (rule contains_mid[where
          p = "''# Auto-generated with: [compose --num_zeros=1 --num_alphas=1 --user --data_dir=/tmp/data]''
         @ newline @ ''#'' @ newline
         @ ''{version: 3.5, services: {''
         @ ''alpha1: {image: dgraph/dgraph:latest, container_name: alpha1, ''
         @ ''working_dir: /working/alpha1, labels: {cluster: test}, environment: [], ''
         @ ''ports: [8180:8180, 9180:9180], ''
         @ ''volumes: [{type: bind, source: $GOPATH/bin, target: /gobin, read_only: true}, ''
         @ ''{type: bind, source: /tmp/data, target: /data, read_only: false}], ''"
          and q = "'', ''
         @ ''command: /gobin/dgraph --cwd=/data/alpha1 alpha -o 100 --my=alpha1:7180 ''
         @ ''--lru_mb=1024 --zero=zero1:5080 --logtostderr -v=2 ''
         @ ''--whitelist=10.0.0.0/8,172.16.0.0/12,192.168.0.0/16}, ''
         @ ''zero1: {image: dgraph/dgraph:latest, container_name: zero1, ''
         @ ''working_dir: /working/zero1, labels: {cluster: test}, environment: [], ''
         @ ''ports: [5080:5080, 6080:6080], ''
         @ ''volumes: [{type: bind, source: $GOPATH/bin, target: /gobin, read_only: true}, ''
         @ ''{type: bind, source: /tmp/data, target: /data, read_only: false}], ''
         @ ''user: ${UID:-'' @ uid @ ''}, ''
         @ ''command: /gobin/dgraph --cwd=/data/zero1 zero -o 0 --idx=1 --my=zero1:5080 ''
         @ ''--replicas=1 --logtostderr -v=2 --bindall}}, ''
         @ ''volumes: {}}'' @ newline"])
       (simp add: example_user_run)
qed

lemma example_users_differ:
  "result (main (example_user_env ''1001'') example_user_options) \<noteq>
   result (main (example_user_env ''1000'') example_user_options)"
  by (simp add: example_user_run)

text \<open>
  When the lookup of the current user fails in user-ownership mode, the run ends in
  \<^verbatim>\<open>x.CheckfNoTrace\<close>: its line on the error stream carries the time of the call.
\<close>

lemma lookup_failure:
  assumes v: "valid_options opts" and u: "UserOwnership opts" and f: "user_Current env = Inl err"
  shows "main env opts =
     \<lparr> err_stream = acl_warning opts @ log_prefix env @ ''unable to get current user: '' @ err
                      @ newline,
       result = Inl (CheckFailed (''unable to get current user: '' @ err)) \<rparr>"
proof -
  let ?o = "resolved opts"
  have i: "initService env ?o ''zero'' 1 (zeroBasePort + getOffset 1) =
      Inl (CheckFailed (''unable to get current user: '' @ err))"
    using u f by (simp add: initService_def Let_def x_CheckfNoTrace_def resolved_simps)
  have g: "getZero env ?o 1 = Inl (CheckFailed (''unable to get current user: '' @ err))"
    by (simp add: getZero_def Let_def i)
  have n: "1 \<le> NumZeros ?o" using v by (simp add: valid_options_def resolved_simps)
  have z: "main_zeros env ?o 1 Map.empty = Inl (CheckFailed (''unable to get current user: '' @ err))"
    using n g by (subst main_zeros.simps) simp
  have c: "main_config env ?o = Inl (CheckFailed (''unable to get current user: '' @ err))"
    by (simp add: main_config_def z)
  show ?thesis
    by (simp add: main_def main_checks_valid[OF v] c x_CheckfNoTrace_line_def acl_warning_def)
qed

section \<open>The claims\<close>

text \<open>
  Claim C1.  For every option set that passes the checks (so with \<open>NumZeros\<close> and
  \<open>NumAlphas\<close> in 1..99), in an environment where the lookup of the current user
  succeeds when user-ownership mode asks for it, the builder returns a document whose
  service keys are exactly the names \<open>zero1 .. zero<NumZeros>\<close>, the names
  \<open>alpha1 .. alpha<NumAlphas>\<close> and, exactly when the Jaeger toggle is set, \<open>jaeger\<close>.
  The names of a role are pairwise different, so there are \<open>NumZeros\<close> coordinator
  keys and \<open>NumAlphas\<close> worker keys, no key belongs to two roles, and the record
  under each key is the one that \<^verbatim>\<open>getZero\<close>, \<^verbatim>\<open>getAlpha\<close> or \<^verbatim>\<open>getJaeger\<close>
  builds for it, carrying that name.
\<close>

theorem builder_record_counts:
  assumes "valid_options opts" and "lookup_ok env opts"
  shows "\<exists>cfg. main_document env opts = Inr cfg \<and>
     dom (Services cfg) =
       name ''zero'' ` {1..NumZeros opts} \<union> name ''alpha'' ` {1..NumAlphas opts}
       \<union> (if Jaeger opts then {''jaeger''} else {}) \<and>
     inj_on (name ''zero'') {1..NumZeros opts} \<and>
     inj_on (name ''alpha'') {1..NumAlphas opts} \<and>
     card (name ''zero'' ` {1..NumZeros opts}) = nat (NumZeros opts) \<and>
     card (name ''alpha'' ` {1..NumAlphas opts}) = nat (NumAlphas opts) \<and>
     name ''zero'' ` {1..NumZeros opts} \<inter> name ''alpha'' ` {1..NumAlphas opts} = {} \<and>
     ''jaeger'' \<notin> name ''zero'' ` {1..NumZeros opts} \<union> name ''alpha'' ` {1..NumAlphas opts} \<and>
     (\<forall>i\<in>{1..NumZeros opts}.
        \<exists>z. getZero env (resolved opts) i = Inr z \<and> Services cfg (name ''zero'' i) = Some z \<and>
            svc_name z = name ''zero'' i) \<and>
     (\<forall>i\<in>{1..NumAlphas opts}.
        \<exists>a. getAlpha env (resolved opts) i = Inr a \<and> Services cfg (name ''alpha'' i) = Some a \<and>
            svc_name a = name ''alpha'' i) \<and>
     (Jaeger opts \<longrightarrow> Services cfg ''jaeger'' = Some getJaeger)"
proof -
  from builder_document[OF assms] obtain cfg where
    d: "main_document env opts = Inr cfg"
    and dm: "dom (Services cfg) =
       name ''zero'' ` {1..NumZeros opts} \<union> name ''alpha'' ` {1..NumAlphas opts}
       \<union> (if Jaeger opts then {''jaeger''} else {})"
    and zs: "\<forall>i\<in>{1..NumZeros opts}.
        \<exists>z. getZero env (resolved opts) i = Inr z \<and> Services cfg (name ''zero'' i) = Some z"
    and as: "\<forall>i\<in>{1..NumAlphas opts}.
        \<exists>a. getAlpha env (resolved opts) i = Inr a \<and> Services cfg (name ''alpha'' i) = Some a"
    and j: "Jaeger opts \<longrightarrow> Services cfg ''jaeger'' = Some getJaeger"
    by blast
  have n: "0 \<le> NumZeros opts" "0 \<le> NumAlphas opts"
    using assms(1) by (simp_all add: valid_options_def)
  have c1: "card (name ''zero'' ` {1..NumZeros opts}) = nat (NumZeros opts)"
    and c2: "card (name ''alpha'' ` {1..NumAlphas opts}) = nat (NumAlphas opts)"
    using n by (simp_all add: card_names)
  have dis: "name ''zero'' ` {1..NumZeros opts} \<inter> name ''alpha'' ` {1..NumAlphas opts} = {}"
    using name_zero_alpha by blast
  have nj: "''jaeger'' \<notin> name ''zero'' ` {1..NumZeros opts} \<union> name ''alpha'' ` {1..NumAlphas opts}"
  proof -
    have "''jaeger'' \<noteq> name ''zero'' i" "''jaeger'' \<noteq> name ''alpha'' i" for i
      by (simp_all add: name_def)
    then show ?thesis by blast
  qed
  have zs': "\<forall>i\<in>{1..NumZeros opts}.
        \<exists>z. getZero env (resolved opts) i = Inr z \<and> Services cfg (name ''zero'' i) = Some z \<and>
            svc_name z = name ''zero'' i"
    using zs getZero_name by blast
  have as': "\<forall>i\<in>{1..NumAlphas opts}.
        \<exists>a. getAlpha env (resolved opts) i = Inr a \<and> Services cfg (name ''alpha'' i) = Some a \<and>
            svc_name a = name ''alpha'' i"
    using as getAlpha_name by blast
  show ?thesis
    using d dm name_inj_on[of "''zero''"] name_inj_on[of "''alpha''"] c1 c2 dis nj zs' as' j
    by blast
qed

theorem builder_record_counts_witness:
  "valid_options default_options \<and> lookup_ok example_env default_options \<and>
   (\<exists>cfg. main_document example_env default_options = Inr cfg \<and>
      dom (Services cfg) = name ''zero'' ` {1..3} \<union> name ''alpha'' ` {1..3} \<and>
      card (name ''zero'' ` {1..3::int}) = 3 \<and>
      card (name ''alpha'' ` {1..3::int}) = 3)"
proof -
  have v: "valid_options default_options" by (rule default_valid)
  have ok: "lookup_ok example_env default_options" by (rule example_lookup_ok)
  have f: "NumZeros default_options = 3" "NumAlphas default_options = 3"
    "Jaeger default_options = False"
    by (simp_all add: default_options_def)
  show ?thesis
    using v ok builder_record_counts[OF v ok] unfolding f by auto
qed

text \<open>
  Claim C3.  With \<open>NumZeros\<close> and \<open>NumAlphas\<close> in 1..99 and any toggles, the port
  numbers that \<^verbatim>\<open>getZero\<close> derives (\<open>zeroBasePort + getOffset i\<close>) are different for
  different coordinator indices, and those that \<^verbatim>\<open>getAlpha\<close> derives are different
  for different worker indices.  The same holds for what the records publish: two
  different coordinators have no exposed port in common, and neither have two
  different workers.
\<close>

theorem ports_injective:
  assumes "1 \<le> NumZeros opts" "NumZeros opts \<le> 99" "1 \<le> NumAlphas opts" "NumAlphas opts \<le> 99"
  shows "inj_on (\<lambda>i. zeroBasePort + getOffset i) {1..NumZeros opts} \<and>
         inj_on (\<lambda>i. alphaBasePort + test_offset opts + getOffset i) {1..NumAlphas opts} \<and>
         (\<forall>i\<in>{1..NumZeros opts}. \<forall>j\<in>{1..NumZeros opts}. \<forall>zi zj.
            getZero env opts i = Inr zi \<and> getZero env opts j = Inr zj \<and> i \<noteq> j \<longrightarrow>
            set (Ports zi) \<inter> set (Ports zj) = {}) \<and>
         (\<forall>i\<in>{1..NumAlphas opts}. \<forall>j\<in>{1..NumAlphas opts}. \<forall>ai aj.
            getAlpha env opts i = Inr ai \<and> getAlpha env opts j = Inr aj \<and> i \<noteq> j \<longrightarrow>
            set (Ports ai) \<inter> set (Ports aj) = {})"
proof -
  have z: "inj_on (\<lambda>i. zeroBasePort + getOffset i) {1..NumZeros opts}"
    by (rule inj_onI) (auto dest: getOffset_inj)
  have a: "inj_on (\<lambda>i. alphaBasePort + test_offset opts + getOffset i) {1..NumAlphas opts}"
    by (rule inj_onI) (auto dest: getOffset_inj)
  have zp: "set (Ports zi) \<inter> set (Ports zj) = {}"
    if r: "i \<in> {1..NumZeros opts}" "j \<in> {1..NumZeros opts}" "i \<noteq> j"
      and g: "getZero env opts i = Inr zi" "getZero env opts j = Inr zj" for i j zi zj
  proof -
    have b: "0 \<le> getOffset i" "getOffset i \<le> 99" "0 \<le> getOffset j" "getOffset j \<le> 99"
      using r assms getOffset_bounds[of i] getOffset_bounds[of j] by auto
    have ne: "getOffset i \<noteq> getOffset j" using r getOffset_inj[of i j] by auto
    show ?thesis
      unfolding getZero_Ports[OF g(1)] getZero_Ports[OF g(2)]
      by (rule ports_disjoint) (use b ne in \<open>simp_all add: zeroBasePort_def\<close>)
  qed
  have ap: "set (Ports ai) \<inter> set (Ports aj) = {}"
    if r: "i \<in> {1..NumAlphas opts}" "j \<in> {1..NumAlphas opts}" "i \<noteq> j"
      and g: "getAlpha env opts i = Inr ai" "getAlpha env opts j = Inr aj" for i j ai aj
  proof -
    have b: "0 \<le> getOffset i" "getOffset i \<le> 99" "0 \<le> getOffset j" "getOffset j \<le> 99"
      using r assms getOffset_bounds[of i] getOffset_bounds[of j] by auto
    have ne: "getOffset i \<noteq> getOffset j" using r getOffset_inj[of i j] by auto
    have t: "0 \<le> test_offset opts" by (simp add: test_offset_def)
    have "set [toExposedPort (alphaBasePort + test_offset opts + getOffset i + 1000),
               toExposedPort (alphaBasePort + test_offset opts + getOffset i + 1000 + 1000)]
          \<inter> set [toExposedPort (alphaBasePort + test_offset opts + getOffset j + 1000),
               toExposedPort (alphaBasePort + test_offset opts + getOffset j + 1000 + 1000)] = {}"
      by (rule ports_disjoint) (use b ne t in \<open>simp_all add: alphaBasePort_def\<close>)
    then show ?thesis
      unfolding getAlpha_Ports[OF g(1)] getAlpha_Ports[OF g(2)] .
  qed
  show ?thesis using z a zp ap by blast
qed

lemma default_counts:
  "NumZeros default_options = 3" "NumAlphas default_options = 3"
  by (simp_all add: default_options_def)

theorem ports_injective_witness:
  "1 \<le> NumZeros default_options \<and> NumZeros default_options \<le> 99 \<and>
   1 \<le> NumAlphas default_options \<and> NumAlphas default_options \<le> 99 \<and>
   (\<exists>z1 z2. getZero example_env default_options 1 = Inr z1 \<and>
      getZero example_env default_options 2 = Inr z2 \<and>
      set (Ports z1) \<inter> set (Ports z2) = {}) \<and>
   (\<exists>a1 a3. getAlpha example_env default_options 1 = Inr a1 \<and>
      getAlpha example_env default_options 3 = Inr a3 \<and>
      set (Ports a1) \<inter> set (Ports a3) = {})"
proof -
  have h: "1 \<le> NumZeros default_options" "NumZeros default_options \<le> 99"
    "1 \<le> NumAlphas default_options" "NumAlphas default_options \<le> 99"
    by (simp_all add: default_counts)
  obtain z1 z2 a1 a3 where g: "getZero example_env default_options 1 = Inr z1"
    "getZero example_env default_options 2 = Inr z2"
    "getAlpha example_env default_options 1 = Inr a1"
    "getAlpha example_env default_options 3 = Inr a3"
    using getZero_total[OF example_lookup_ok] getAlpha_total[OF example_lookup_ok] by metis
  have m: "(1::int) \<in> {1..NumZeros default_options}" "(2::int) \<in> {1..NumZeros default_options}"
    "(1::int) \<in> {1..NumAlphas default_options}" "(3::int) \<in> {1..NumAlphas default_options}"
    by (simp_all add: default_counts)
  have ne: "(1::int) \<noteq> 2" "(1::int) \<noteq> 3" by simp_all
  note t = ports_injective[OF h, of example_env]
  have "set (Ports z1) \<inter> set (Ports z2) = {}"
    using t g(1,2) m(1,2) ne(1) by blast
  moreover have "set (Ports a1) \<inter> set (Ports a3) = {}"
    using t g(3,4) m(3,4) ne(2) by blast
  ultimately show ?thesis using h g by blast
qed

text \<open>
  Claim C2.  For an index \<open>i\<close> in 1..99, the coordinator built by \<^verbatim>\<open>getZero\<close>
  advertises (in \<^verbatim>\<open>--my\<close>) the port 5080 plus the offset, which is 0 for index 1 and
  \<open>i\<close> for a larger index, and it exposes that port and the port 1000 above it.
  The worker built by \<^verbatim>\<open>getAlpha\<close> advertises the internal port 7080 plus the same
  offset, plus 100 when the test-port-range toggle is on, and it exposes the port 1000
  above the internal one (its gRPC port) and the port 1000 above that.  Both records
  are built whenever the lookup of the current user does not fail.
\<close>

theorem port_derivation:
  assumes "1 \<le> i" "i \<le> 99"
  shows "(\<forall>z. getZero env opts i = Inr z \<longrightarrow>
            contains (Command z)
              ('' --my='' @ name ''zero'' i @ '':'' @ fmt_d (5080 + (if i = 1 then 0 else i)) @ '' '') \<and>
            Ports z = [toExposedPort (5080 + (if i = 1 then 0 else i)),
                       toExposedPort (5080 + (if i = 1 then 0 else i) + 1000)]) \<and>
         (\<forall>a. getAlpha env opts i = Inr a \<longrightarrow>
            contains (Command a)
              ('' --my='' @ name ''alpha'' i @ '':''
               @ fmt_d (7080 + (if TestPortRange opts then 100 else 0) + (if i = 1 then 0 else i))
               @ '' '') \<and>
            Ports a = [toExposedPort (7080 + (if TestPortRange opts then 100 else 0)
                                      + (if i = 1 then 0 else i) + 1000),
                       toExposedPort (7080 + (if TestPortRange opts then 100 else 0)
                                      + (if i = 1 then 0 else i) + 1000 + 1000)]) \<and>
         (lookup_ok env opts \<longrightarrow>
            (\<exists>z a. getZero env opts i = Inr z \<and> getAlpha env opts i = Inr a))"
proof -
  have zo: "zeroBasePort + getOffset i = 5080 + (if i = 1 then 0 else i)"
    by (simp add: zeroBasePort_def getOffset_def)
  have ao: "alphaBasePort + test_offset opts + getOffset i =
            7080 + (if TestPortRange opts then 100 else 0) + (if i = 1 then 0 else i)"
    by (simp add: alphaBasePort_def getOffset_def test_offset_def)
  have z: "contains (Command z)
              ('' --my='' @ name ''zero'' i @ '':'' @ fmt_d (5080 + (if i = 1 then 0 else i)) @ '' '') \<and>
            Ports z = [toExposedPort (5080 + (if i = 1 then 0 else i)),
                       toExposedPort (5080 + (if i = 1 then 0 else i) + 1000)]"
    if g: "getZero env opts i = Inr z" for z
  proof
    show "contains (Command z)
              ('' --my='' @ name ''zero'' i @ '':'' @ fmt_d (5080 + (if i = 1 then 0 else i)) @ '' '')"
      by (rule contains_mid[where
            p = "''/gobin/dgraph'' @ cwd_flag opts (name ''zero'' i) @ jaeger_flag opts
                 @ '' zero -o '' @ fmt_d (i - 1) @ '' --idx='' @ fmt_d i"
            and q = "''--replicas='' @ fmt_d (replicas env opts)
                 @ '' --logtostderr -v='' @ fmt_d (Verbosity opts)
                 @ (if i = 1 then '' --bindall''
                    else '' --peer='' @ name ''zero'' 1 @ '':'' @ fmt_d zeroBasePort)"])
         (simp add: getZero_Command[OF g] zo)
    show "Ports z = [toExposedPort (5080 + (if i = 1 then 0 else i)),
                       toExposedPort (5080 + (if i = 1 then 0 else i) + 1000)]"
      using getZero_Ports[OF g] by (simp only: zo)
  qed
  have a: "contains (Command a)
              ('' --my='' @ name ''alpha'' i @ '':''
               @ fmt_d (7080 + (if TestPortRange opts then 100 else 0) + (if i = 1 then 0 else i))
               @ '' '') \<and>
            Ports a = [toExposedPort (7080 + (if TestPortRange opts then 100 else 0)
                                      + (if i = 1 then 0 else i) + 1000),
                       toExposedPort (7080 + (if TestPortRange opts then 100 else 0)
                                      + (if i = 1 then 0 else i) + 1000 + 1000)]"
    if g: "getAlpha env opts i = Inr a" for a
  proof
    show "contains (Command a)
              ('' --my='' @ name ''alpha'' i @ '':''
               @ fmt_d (7080 + (if TestPortRange opts then 100 else 0) + (if i = 1 then 0 else i))
               @ '' '')"
      by (rule contains_mid[where
            p = "''/gobin/dgraph'' @ cwd_flag opts (name ''alpha'' i) @ jaeger_flag opts
                 @ '' alpha -o '' @ fmt_d (test_offset opts + i - 1)"
            and q = "''--lru_mb='' @ fmt_d (LruSizeMB opts)
                 @ '' --zero=zero1:'' @ fmt_d zeroBasePort
                 @ '' --logtostderr -v='' @ fmt_d (Verbosity opts)
                 @ '' --whitelist=10.0.0.0/8,172.16.0.0/12,192.168.0.0/16''
                 @ (if EnterpriseMode opts then
                      '' --enterprise_features''
                      @ (if AclSecret opts \<noteq> [] then
                           '' --acl_secret_file=/secret/hmac --acl_access_ttl 10s'' else [])
                    else [])"])
         (simp add: getAlpha_Command[OF g] ao)
    show "Ports a = [toExposedPort (7080 + (if TestPortRange opts then 100 else 0)
                                      + (if i = 1 then 0 else i) + 1000),
                       toExposedPort (7080 + (if TestPortRange opts then 100 else 0)
                                      + (if i = 1 then 0 else i) + 1000 + 1000)]"
      using getAlpha_Ports[OF g] by (simp only: ao)
  qed
  have t: "\<exists>z a. getZero env opts i = Inr z \<and> getAlpha env opts i = Inr a" if "lookup_ok env opts"
    using getZero_total[OF that] getAlpha_total[OF that] by blast
  show ?thesis using z a t by blast
qed

theorem port_derivation_witness:
  "(1::int) \<le> 2 \<and> (2::int) \<le> 99 \<and> lookup_ok example_env default_options \<and>
   (\<exists>z a. getZero example_env default_options 2 = Inr z \<and>
      getAlpha example_env default_options 2 = Inr a \<and>
      contains (Command z) '' --my=zero2:5082 '' \<and>
      Ports z = [''5082:5082'', ''6082:6082''] \<and>
      contains (Command a) '' --my=alpha2:7182 '' \<and>
      Ports a = [''8182:8182'', ''9182:9182''])"
proof -
  have h: "(1::int) \<le> 2" "(2::int) \<le> 99" by simp_all
  note t = port_derivation[OF h, of example_env default_options]
  obtain z a where g: "getZero example_env default_options 2 = Inr z"
    "getAlpha example_env default_options 2 = Inr a"
    using t example_lookup_ok by blast
  have e: "fmt_d 2 = ''2''" "fmt_d 5082 = ''5082''" "fmt_d 6082 = ''6082''"
    "fmt_d 7182 = ''7182''" "fmt_d 8182 = ''8182''" "fmt_d 9182 = ''9182''"
    by (simp_all add: fmt_d_def show_nat.simps digit_char_def)
  have d: "TestPortRange default_options" by (simp add: default_options_def)
  have "contains (Command z) '' --my=zero2:5082 '' \<and> Ports z = [''5082:5082'', ''6082:6082'']"
    using t g(1) by (simp add: e name_def toExposedPort_def)
  moreover have "contains (Command a) '' --my=alpha2:7182 '' \<and>
      Ports a = [''8182:8182'', ''9182:9182'']"
    using t g(2) d by (simp add: e name_def toExposedPort_def)
  ultimately show ?thesis using h g example_lookup_ok by blast
qed

lemma alpha_zero_flag:
  assumes g: "getAlpha env opts i = Inr a"
  shows "contains (Command a) '' --zero=zero1:5080 ''"
  by (rule contains_mid[where
        p = "''/gobin/dgraph'' @ cwd_flag opts (name ''alpha'' i) @ jaeger_flag opts
             @ '' alpha -o '' @ fmt_d (test_offset opts + i - 1)
             @ '' --my='' @ name ''alpha'' i @ '':''
             @ fmt_d (alphaBasePort + test_offset opts + getOffset i)
             @ '' --lru_mb='' @ fmt_d (LruSizeMB opts)"
        and q = "''--logtostderr -v='' @ fmt_d (Verbosity opts)
             @ '' --whitelist=10.0.0.0/8,172.16.0.0/12,192.168.0.0/16''
             @ (if EnterpriseMode opts then
                  '' --enterprise_features''
                  @ (if AclSecret opts \<noteq> [] then
                       '' --acl_secret_file=/secret/hmac --acl_access_ttl 10s'' else [])
                else [])"])
     (simp add: getAlpha_Command[OF g] zeroBasePort_def fmt_d_5080)

text \<open>
  Claim C10.  Whatever the options and the index are, the command of a worker record
  that \<^verbatim>\<open>getAlpha\<close> builds contains \<^verbatim>\<open>--zero=zero1:5080\<close> (followed by a space, so the
  port is 5080 and no longer number): neither \<open>NumZeros\<close> nor the index nor the
  test-port-range toggle enters the flag.  And for every option set that passes the
  checks (the lookup of the current user not failing) the document has such a record
  under \<open>alpha<i>\<close> for every \<open>i\<close> in 1..\<open>NumAlphas\<close>.
\<close>

theorem workers_connect_to_first_zero:
  "(\<forall>a. getAlpha env opts i = Inr a \<longrightarrow> contains (Command a) '' --zero=zero1:5080 '') \<and>
   (valid_options opts \<and> lookup_ok env opts \<longrightarrow>
      (\<exists>cfg. main_document env opts = Inr cfg \<and>
         (\<forall>i\<in>{1..NumAlphas opts}.
            \<exists>a. Services cfg (name ''alpha'' i) = Some a \<and>
                contains (Command a) '' --zero=zero1:5080 '')))"
proof -
  have "\<exists>cfg. main_document env opts = Inr cfg \<and>
         (\<forall>i\<in>{1..NumAlphas opts}.
            \<exists>a. Services cfg (name ''alpha'' i) = Some a \<and>
                contains (Command a) '' --zero=zero1:5080 '')"
    if v: "valid_options opts" and ok: "lookup_ok env opts"
  proof -
    from builder_document[OF v ok] obtain cfg where
      d: "main_document env opts = Inr cfg"
      and as: "\<forall>i\<in>{1..NumAlphas opts}.
          \<exists>a. getAlpha env (resolved opts) i = Inr a \<and> Services cfg (name ''alpha'' i) = Some a"
      by blast
    show ?thesis using d as alpha_zero_flag by blast
  qed
  then show ?thesis using alpha_zero_flag by blast
qed

theorem workers_connect_to_first_zero_witness:
  "valid_options default_options \<and> lookup_ok example_env default_options \<and>
   (\<exists>cfg a. main_document example_env default_options = Inr cfg \<and>
      Services cfg (name ''alpha'' 3) = Some a \<and>
      contains (Command a) '' --zero=zero1:5080 '') \<and>
   (\<exists>a. getAlpha example_env default_options 3 = Inr a \<and>
      contains (Command a) '' --zero=zero1:5080 '')"
proof -
  have m: "(3::int) \<in> {1..NumAlphas default_options}" by (simp add: default_counts)
  obtain a where a: "getAlpha example_env default_options 3 = Inr a"
    using getAlpha_total[OF example_lookup_ok] by blast
  note t = workers_connect_to_first_zero[of example_env default_options 3]
  from t a have "contains (Command a) '' --zero=zero1:5080 ''" by blast
  moreover from t default_valid example_lookup_ok m have
    "\<exists>cfg a. main_document example_env default_options = Inr cfg \<and>
      Services cfg (name ''alpha'' 3) = Some a \<and>
      contains (Command a) '' --zero=zero1:5080 ''"
    by blast
  ultimately show ?thesis using a default_valid example_lookup_ok by blast
qed

text \<open>
  Claim C6.  With \<open>NumZeros = 1\<close> and \<open>NumAlphas = 1\<close> (the other options passing the
  checks, the lookup of the current user not failing), the document has the keys
  \<open>zero1\<close> and \<open>alpha1\<close> and no other, but for \<open>jaeger\<close> when its toggle is set.
  The command of \<open>zero1\<close> advertises port 5080, which the record also exposes,
  it contains \<^verbatim>\<open>--bindall\<close> and it contains no \<^verbatim>\<open>--peer\<close>; the command of \<open>alpha1\<close>
  contains \<^verbatim>\<open>--zero=zero1:5080\<close>.
\<close>

theorem one_zero_one_alpha:
  assumes "valid_options opts" and "lookup_ok env opts"
    and "NumZeros opts = 1" and "NumAlphas opts = 1"
  shows "\<exists>cfg z a. main_document env opts = Inr cfg \<and>
     dom (Services cfg) = {''zero1'', ''alpha1''} \<union> (if Jaeger opts then {''jaeger''} else {}) \<and>
     Services cfg ''zero1'' = Some z \<and>
     Services cfg ''alpha1'' = Some a \<and>
     contains (Command z) '' --my=zero1:5080 '' \<and>
     Ports z = [''5080:5080'', ''6080:6080''] \<and>
     contains (Command z) '' --bindall'' \<and>
     \<not> contains (Command z) ''--peer'' \<and>
     contains (Command a) '' --zero=zero1:5080 ''"
proof -
  from builder_document[OF assms(1,2)] obtain cfg where
    d: "main_document env opts = Inr cfg"
    and dm: "dom (Services cfg) =
       name ''zero'' ` {1..NumZeros opts} \<union> name ''alpha'' ` {1..NumAlphas opts}
       \<union> (if Jaeger opts then {''jaeger''} else {})"
    and zs: "\<forall>i\<in>{1..NumZeros opts}.
        \<exists>z. getZero env (resolved opts) i = Inr z \<and> Services cfg (name ''zero'' i) = Some z"
    and as: "\<forall>i\<in>{1..NumAlphas opts}.
        \<exists>a. getAlpha env (resolved opts) i = Inr a \<and> Services cfg (name ''alpha'' i) = Some a"
    by blast
  obtain z where z: "getZero env (resolved opts) 1 = Inr z" "Services cfg ''zero1'' = Some z"
    using zs assms(3) by (auto simp: name_zero1)
  obtain a where a: "getAlpha env (resolved opts) 1 = Inr a" "Services cfg ''alpha1'' = Some a"
    using as assms(4) by (auto simp: name_alpha1)
  have dm': "dom (Services cfg) =
      {''zero1'', ''alpha1''} \<union> (if Jaeger opts then {''jaeger''} else {})"
    using dm by (simp add: assms(3,4) range_one name_zero1 name_alpha1 insert_commute)
  note zc = zero1_Command[OF z(1)]
  have my: "contains (Command z) '' --my=zero1:5080 ''"
    by (rule contains_mid[where
          p = "''/gobin/dgraph'' @ cwd_flag (resolved opts) ''zero1'' @ jaeger_flag (resolved opts)
               @ '' zero -o 0 --idx=1''"
          and q = "''--replicas='' @ fmt_d (replicas env (resolved opts))
               @ '' --logtostderr -v='' @ fmt_d (Verbosity (resolved opts)) @ '' --bindall''"])
       (simp add: zc)
  have bind: "contains (Command z) '' --bindall''"
    by (rule contains_mid[where
          p = "''/gobin/dgraph'' @ cwd_flag (resolved opts) ''zero1'' @ jaeger_flag (resolved opts)
               @ '' zero -o 0 --idx=1 --my=zero1:5080 --replicas=''
               @ fmt_d (replicas env (resolved opts))
               @ '' --logtostderr -v='' @ fmt_d (Verbosity (resolved opts))"
          and q = "[]"])
       (simp add: zc)
  have ports: "Ports z = [''5080:5080'', ''6080:6080'']"
  proof -
    have "fmt_d 6080 = ''6080''" by (simp add: fmt_d_def show_nat.simps digit_char_def)
    then show ?thesis
      using getZero_Ports[OF z(1)]
      by (simp add: zeroBasePort_def getOffset_def toExposedPort_def fmt_d_5080)
  qed
  have zero: "contains (Command a) '' --zero=zero1:5080 ''"
    by (rule contains_mid[where
          p = "''/gobin/dgraph'' @ cwd_flag (resolved opts) (name ''alpha'' 1)
               @ jaeger_flag (resolved opts)
               @ '' alpha -o '' @ fmt_d (test_offset (resolved opts) + 1 - 1)
               @ '' --my='' @ name ''alpha'' 1 @ '':''
               @ fmt_d (alphaBasePort + test_offset (resolved opts) + getOffset 1)
               @ '' --lru_mb='' @ fmt_d (LruSizeMB (resolved opts))"
          and q = "''--logtostderr -v='' @ fmt_d (Verbosity (resolved opts))
               @ '' --whitelist=10.0.0.0/8,172.16.0.0/12,192.168.0.0/16''
               @ (if EnterpriseMode (resolved opts) then
                    '' --enterprise_features''
                    @ (if AclSecret (resolved opts) \<noteq> [] then
                         '' --acl_secret_file=/secret/hmac --acl_access_ttl 10s'' else [])
                  else [])"])
       (simp add: getAlpha_Command[OF a(1)] zeroBasePort_def fmt_d_5080)
  show ?thesis
    using d dm' z(2) a(2) my ports bind zero1_no_peer[OF z(1)] zero by blast
qed

theorem one_zero_one_alpha_witness:
  "valid_options (default_options\<lparr> NumZeros := 1, NumAlphas := 1 \<rparr>) \<and>
   lookup_ok example_env (default_options\<lparr> NumZeros := 1, NumAlphas := 1 \<rparr>) \<and>
   (\<exists>cfg z a.
      main_document example_env (default_options\<lparr> NumZeros := 1, NumAlphas := 1 \<rparr>) = Inr cfg \<and>
      dom (Services cfg) = {''zero1'', ''alpha1''} \<and>
      Services cfg ''zero1'' = Some z \<and>
      Services cfg ''alpha1'' = Some a \<and>
      contains (Command z) '' --my=zero1:5080 '' \<and>
      contains (Command z) '' --bindall'' \<and>
      \<not> contains (Command z) ''--peer'' \<and>
      contains (Command a) '' --zero=zero1:5080 '')"
proof -
  let ?o = "default_options\<lparr> NumZeros := 1, NumAlphas := 1 \<rparr>"
  have v: "valid_options ?o" by (simp add: valid_options_def default_options_def)
  have n: "NumZeros ?o = 1" "NumAlphas ?o = 1" by simp_all
  have j: "Jaeger ?o = False" by (simp add: default_options_def)
  show ?thesis
    using one_zero_one_alpha[OF v example_lookup_ok n] v example_lookup_ok
    unfolding j by auto
qed

text \<open>
  Claim C9.  The access-control secret touches no coordinator record.  \<^verbatim>\<open>getZero\<close>
  gives the same result whatever the secret path and the enterprise switch are (the
  checks turn the switch on when a secret is given).  A coordinator record has no mount
  at \<^verbatim>\<open>/secret/hmac\<close> and its command has neither of the two access-control flags,
  which \<^verbatim>\<open>getAlpha\<close> adds; the same holds for the Jaeger record.  And two runs on option sets that differ only in the
  secret either end with the same error, or give documents with the same service keys
  and the same record under every coordinator key.
\<close>

theorem acl_secret_leaves_zero_records:
  "getZero env (opts\<lparr> AclSecret := s, EnterpriseMode := e \<rparr>) i = getZero env opts i \<and>
   (\<forall>z. getZero env opts i = Inr z \<longrightarrow>
      (\<forall>v\<in>set (Volumes z). Target v \<noteq> ''/secret/hmac'') \<and>
      \<not> contains (Command z) ''--acl_secret_file'' \<and>
      \<not> contains (Command z) ''--acl_access_ttl'') \<and>
   Volumes getJaeger = [] \<and>
   \<not> contains (Command getJaeger) ''--acl_secret_file'' \<and>
   \<not> contains (Command getJaeger) ''--acl_access_ttl'' \<and>
   (case main_document env (opts\<lparr> AclSecret := s \<rparr>) of
      Inl err \<Rightarrow> main_document env (opts\<lparr> AclSecret := [] \<rparr>) = Inl err
    | Inr c1 \<Rightarrow>
        (\<exists>c2. main_document env (opts\<lparr> AclSecret := [] \<rparr>) = Inr c2 \<and>
           dom (Services c1) = dom (Services c2) \<and>
           (\<forall>i\<in>{1..NumZeros opts}.
              Services c1 (name ''zero'' i) = Services c2 (name ''zero'' i))))"
proof -
  have "\<not> contains (Command z) ''--acl_secret_file''" "\<not> contains (Command z) ''--acl_access_ttl''"
    if "getZero env opts i = Inr z" for z
    by (rule zero_no_flag_with_underscore[OF that], simp)+
  moreover have "Volumes getJaeger = []" by (simp add: getJaeger_def)
  moreover have "\<not> contains (Command getJaeger) ''--acl_secret_file''"
    "\<not> contains (Command getJaeger) ''--acl_access_ttl''"
    by (simp_all add: getJaeger_def contains_def sublist_Cons_right)
  ultimately show ?thesis
    using getZero_indep[where env = env and opts = opts and s = s and e = e and i = i]
      zero_no_secret_mount[where env = env and opts = opts and i = i]
      main_document_acl_zeros[where env = env and opts = opts and s = s]
    by blast
qed

theorem acl_secret_leaves_zero_records_witness:
  "\<exists>z c1 c2. getZero example_env default_options 2 = Inr z \<and>
      getZero example_env (default_options\<lparr> AclSecret := ''/tmp/hmac'', EnterpriseMode := True \<rparr>) 2 = Inr z \<and>
      \<not> contains (Command z) ''--acl_secret_file'' \<and>
      main_document example_env (default_options\<lparr> AclSecret := ''/tmp/hmac'' \<rparr>) = Inr c1 \<and>
      main_document example_env (default_options\<lparr> AclSecret := [] \<rparr>) = Inr c2 \<and>
      Services c1 (name ''zero'' 2) = Services c2 (name ''zero'' 2)"
proof -
  note t = acl_secret_leaves_zero_records[where env = example_env and opts = default_options
      and s = "''/tmp/hmac''" and e = True and i = 2]
  obtain z where z: "getZero example_env default_options 2 = Inr z"
    using getZero_total[OF example_lookup_ok] by blast
  have v: "valid_options (default_options\<lparr> AclSecret := ''/tmp/hmac'' \<rparr>)"
    using default_valid by (simp add: valid_options_acl)
  obtain c1 where c1: "main_document example_env (default_options\<lparr> AclSecret := ''/tmp/hmac'' \<rparr>) = Inr c1"
    using builder_document[OF v example_lookup_ok] by blast
  have m: "(2::int) \<in> {1..NumZeros default_options}" by (simp add: default_counts)
  from t c1 obtain c2 where
    "main_document example_env (default_options\<lparr> AclSecret := [] \<rparr>) = Inr c2"
    "\<forall>i\<in>{1..NumZeros default_options}.
        Services c1 (name ''zero'' i) = Services c2 (name ''zero'' i)"
    by auto
  then show ?thesis using t z c1 m by auto
qed

text \<open>
  Claim C5.  When the named data volume and a host data directory are both given, or a
  node count is outside 1..99, or user-ownership mode is on without a host data
  directory, the run ends in \<^verbatim>\<open>fatal\<close>: the last line on the error stream is
  \<^verbatim>\<open>compose:\<close> followed by one of the five messages of the checks, the exit status is 1,
  no document is built and nothing is written to the destination.  The message is
  that of the first check that fails: a count out of range is reported as such, and
  when the counts and the cache size pass, the two volume flags together are reported
  by their own message.
\<close>

theorem bad_options_are_fatal:
  assumes "(DataVol opts \<and> DataDir opts \<noteq> []) \<or>
           NumZeros opts < 1 \<or> 99 < NumZeros opts \<or>
           NumAlphas opts < 1 \<or> 99 < NumAlphas opts \<or>
           (UserOwnership opts \<and> DataDir opts = [])"
  shows "\<exists>msg w.
     msg \<in> {''number of zeros must be 1-99'', ''number of alphas must be 1-99'',
            ''LRU cache size must be >= 1024 MB'',
            ''only one of --data_vol and --data_dir may be used at a time'',
            ''--user option requires --data_dir=<path>''} \<and>
     result (main env opts) = Inl (Fatal msg) \<and>
     err_stream (main env opts) = w @ ''compose: '' @ msg @ newline \<and>
     exit_status (main env opts) = 1 \<and>
     main_document env opts = Inl (Fatal msg) \<and>
     (NumZeros opts < 1 \<or> 99 < NumZeros opts \<longrightarrow> msg = ''number of zeros must be 1-99'') \<and>
     (1 \<le> NumZeros opts \<and> NumZeros opts \<le> 99 \<and> 1 \<le> NumAlphas opts \<and> NumAlphas opts \<le> 99 \<and>
      1024 \<le> LruSizeMB opts \<and> DataVol opts \<and> DataDir opts \<noteq> [] \<longrightarrow>
        msg = ''only one of --data_vol and --data_dir may be used at a time'')"
proof -
  consider (z) "NumZeros opts < 1 \<or> 99 < NumZeros opts"
    | (a) "1 \<le> NumZeros opts" "NumZeros opts \<le> 99" "NumAlphas opts < 1 \<or> 99 < NumAlphas opts"
    | (l) "1 \<le> NumZeros opts" "NumZeros opts \<le> 99" "1 \<le> NumAlphas opts" "NumAlphas opts \<le> 99"
          "LruSizeMB opts < 1024"
    | (v) "1 \<le> NumZeros opts" "NumZeros opts \<le> 99" "1 \<le> NumAlphas opts" "NumAlphas opts \<le> 99"
          "1024 \<le> LruSizeMB opts" "DataVol opts \<and> DataDir opts \<noteq> []"
    | (u) "1 \<le> NumZeros opts" "NumZeros opts \<le> 99" "1 \<le> NumAlphas opts" "NumAlphas opts \<le> 99"
          "1024 \<le> LruSizeMB opts" "\<not> (DataVol opts \<and> DataDir opts \<noteq> [])"
          "UserOwnership opts \<and> DataDir opts = []"
    using assms by linarith
  then obtain msg w where c: "main_checks opts = (w @ fatal msg, Inl (Fatal msg))"
    and m: "msg \<in> {''number of zeros must be 1-99'', ''number of alphas must be 1-99'',
            ''LRU cache size must be >= 1024 MB'',
            ''only one of --data_vol and --data_dir may be used at a time'',
            ''--user option requires --data_dir=<path>''}"
    and fz: "NumZeros opts < 1 \<or> 99 < NumZeros opts \<longrightarrow> msg = ''number of zeros must be 1-99''"
    and fv: "1 \<le> NumZeros opts \<and> NumZeros opts \<le> 99 \<and> 1 \<le> NumAlphas opts \<and> NumAlphas opts \<le> 99 \<and>
      1024 \<le> LruSizeMB opts \<and> DataVol opts \<and> DataDir opts \<noteq> [] \<longrightarrow>
        msg = ''only one of --data_vol and --data_dir may be used at a time''"
  proof cases
    case z
    show ?thesis
      by (rule that[of "[]" "''number of zeros must be 1-99''"])
         (use z main_checks_zeros[of opts] in \<open>auto simp: not_le\<close>)
  next
    case a
    show ?thesis
      by (rule that[of "[]" "''number of alphas must be 1-99''"])
         (use a main_checks_alphas[of opts] in \<open>auto simp: not_le\<close>)
  next
    case l
    show ?thesis
      by (rule that[of "[]" "''LRU cache size must be >= 1024 MB''"])
         (use l main_checks_lru[of opts] in \<open>auto simp: not_le\<close>)
  next
    case v
    show ?thesis
      by (rule that[of "acl_warning opts" "''only one of --data_vol and --data_dir may be used at a time''"])
         (use v main_checks_volumes[of opts] in \<open>auto simp: not_le\<close>)
  next
    case u
    show ?thesis
      by (rule that[of "acl_warning opts" "''--user option requires --data_dir=<path>''"])
         (use u main_checks_user[of opts] in \<open>auto simp: not_le\<close>)
  qed
  note e = main_checks_error[OF c, of env]
  have "result (main env opts) = Inl (Fatal msg)"
    and "err_stream (main env opts) = w @ ''compose: '' @ msg @ newline"
    and "exit_status (main env opts) = 1"
    by (simp_all add: e(1) exit_status_def fatal_is_line)
  then show ?thesis using m e(2) fz fv by blast
qed

theorem bad_options_are_fatal_witness:
  "DataVol (default_options\<lparr> DataVol := True, DataDir := ''/tmp/data'' \<rparr>) \<and>
   DataDir (default_options\<lparr> DataVol := True, DataDir := ''/tmp/data'' \<rparr>) \<noteq> [] \<and>
   result (main example_env (default_options\<lparr> DataVol := True, DataDir := ''/tmp/data'' \<rparr>)) =
     Inl (Fatal ''only one of --data_vol and --data_dir may be used at a time'') \<and>
   exit_status (main example_env (default_options\<lparr> DataVol := True, DataDir := ''/tmp/data'' \<rparr>)) = 1"
proof -
  let ?o = "default_options\<lparr> DataVol := True, DataDir := ''/tmp/data'' \<rparr>"
  have h: "DataVol ?o \<and> DataDir ?o \<noteq> []" by simp
  have r: "1 \<le> NumZeros ?o \<and> NumZeros ?o \<le> 99 \<and> 1 \<le> NumAlphas ?o \<and> NumAlphas ?o \<le> 99 \<and>
      1024 \<le> LruSizeMB ?o \<and> DataVol ?o \<and> DataDir ?o \<noteq> []"
    by (simp add: default_options_def)
  from h have "(DataVol ?o \<and> DataDir ?o \<noteq> []) \<or>
           NumZeros ?o < 1 \<or> 99 < NumZeros ?o \<or>
           NumAlphas ?o < 1 \<or> 99 < NumAlphas ?o \<or>
           (UserOwnership ?o \<and> DataDir ?o = [])" by blast
  from bad_options_are_fatal[OF this, of example_env] r h show ?thesis by metis
qed

text \<open>
  Claim C4, as stated, fails: an option set with a secret and without enterprise mode
  whose coordinator count is 0 is stopped by the first check, which runs before the
  one for the secret.  The run writes the error of that check and no warning, and
  enterprise mode is never switched on.
\<close>

theorem acl_warning_not_for_every_option_set:
  "AclSecret (default_options\<lparr> NumZeros := 0, AclSecret := ''/tmp/hmac'' \<rparr>) \<noteq> [] \<and>
   \<not> EnterpriseMode (default_options\<lparr> NumZeros := 0, AclSecret := ''/tmp/hmac'' \<rparr>) \<and>
   main example_env (default_options\<lparr> NumZeros := 0, AclSecret := ''/tmp/hmac'' \<rparr>) =
     \<lparr> err_stream = ''compose: number of zeros must be 1-99'' @ newline,
       result = Inl (Fatal ''number of zeros must be 1-99'') \<rparr>"
proof -
  let ?o = "default_options\<lparr> NumZeros := 0, AclSecret := ''/tmp/hmac'' \<rparr>"
  have "NumZeros ?o < 1 \<or> 99 < NumZeros ?o" by simp
  from main_checks_zeros[OF this] have
    "main example_env ?o = \<lparr> err_stream = fatal ''number of zeros must be 1-99'',
        result = Inl (Fatal ''number of zeros must be 1-99'') \<rparr>"
    by (rule main_checks_error)
  then show ?thesis by (simp add: default_options_def fatal_is_line)
qed

lemma alpha_acl_flags:
  assumes g: "getAlpha env opts i = Inr a" and e: "EnterpriseMode opts" "AclSecret opts \<noteq> []"
  shows "contains (Command a)
           '' --enterprise_features --acl_secret_file=/secret/hmac --acl_access_ttl 10s''"
    and "\<lparr> Type = ''bind'', Source = AclSecret opts, Target = ''/secret/hmac'',
           ReadOnly = True \<rparr> \<in> set (Volumes a)"
proof -
  show "contains (Command a)
          '' --enterprise_features --acl_secret_file=/secret/hmac --acl_access_ttl 10s''"
    by (rule contains_mid[where
          p = "''/gobin/dgraph'' @ cwd_flag opts (name ''alpha'' i) @ jaeger_flag opts
             @ '' alpha -o '' @ fmt_d (test_offset opts + i - 1)
             @ '' --my='' @ name ''alpha'' i @ '':''
             @ fmt_d (alphaBasePort + test_offset opts + getOffset i)
             @ '' --lru_mb='' @ fmt_d (LruSizeMB opts)
             @ '' --zero=zero1:'' @ fmt_d zeroBasePort
             @ '' --logtostderr -v='' @ fmt_d (Verbosity opts)
             @ '' --whitelist=10.0.0.0/8,172.16.0.0/12,192.168.0.0/16''"
          and q = "[]"])
       (simp add: getAlpha_Command[OF g] e)
  show "\<lparr> Type = ''bind'', Source = AclSecret opts, Target = ''/secret/hmac'',
          ReadOnly = True \<rparr> \<in> set (Volumes a)"
    unfolding getAlpha_Volumes[OF g] using e by simp
qed

text \<open>
  Claim C4, amended.  For every option set that passes the other checks (counts in
  1..99, cache size at least 1024, not both volume flags, user-ownership mode only with
  a host data directory), with a secret path and without enterprise mode: the checks
  write the warning and no error and leave the options with enterprise mode on.  Every
  worker record built from the options so left has in its command the enterprise flag
  followed by the two access-control flags, and mounts the secret read-only at
  \<^verbatim>\<open>/secret/hmac\<close>; and (the lookup of the current user not failing) the document has
  such a record under \<open>alpha<i>\<close> for every \<open>i\<close> in 1..\<open>NumAlphas\<close>.
\<close>

theorem acl_secret_forces_enterprise:
  assumes "valid_options opts" and "AclSecret opts \<noteq> []" and "\<not> EnterpriseMode opts"
  shows "main_checks opts =
           (warning ''adding --enterprise because it is required by ACL feature'',
            Inr (opts\<lparr> EnterpriseMode := True \<rparr>)) \<and>
         (\<forall>i a. getAlpha env (opts\<lparr> EnterpriseMode := True \<rparr>) i = Inr a \<longrightarrow>
            contains (Command a)
              '' --enterprise_features --acl_secret_file=/secret/hmac --acl_access_ttl 10s'' \<and>
            \<lparr> Type = ''bind'', Source = AclSecret opts, Target = ''/secret/hmac'',
              ReadOnly = True \<rparr> \<in> set (Volumes a)) \<and>
         (lookup_ok env opts \<longrightarrow>
            (\<exists>cfg. main_document env opts = Inr cfg \<and>
               (\<forall>i\<in>{1..NumAlphas opts}.
                  \<exists>a. Services cfg (name ''alpha'' i) = Some a \<and>
                    contains (Command a)
                      '' --enterprise_features --acl_secret_file=/secret/hmac --acl_access_ttl 10s'' \<and>
                    \<lparr> Type = ''bind'', Source = AclSecret opts, Target = ''/secret/hmac'',
                      ReadOnly = True \<rparr> \<in> set (Volumes a))))"
proof -
  have r: "resolved opts = opts\<lparr> EnterpriseMode := True \<rparr>"
    using assms(2) by (simp add: resolved_def)
  have c: "main_checks opts =
           (warning ''adding --enterprise because it is required by ACL feature'',
            Inr (opts\<lparr> EnterpriseMode := True \<rparr>))"
    using main_checks_valid[OF assms(1)] assms(2,3) by (simp add: r)
  have f: "contains (Command a)
              '' --enterprise_features --acl_secret_file=/secret/hmac --acl_access_ttl 10s'' \<and>
            \<lparr> Type = ''bind'', Source = AclSecret opts, Target = ''/secret/hmac'',
              ReadOnly = True \<rparr> \<in> set (Volumes a)"
    if g: "getAlpha env (opts\<lparr> EnterpriseMode := True \<rparr>) i = Inr a" for i a
    using alpha_acl_flags[OF g] assms(2) by simp
  have "\<exists>cfg. main_document env opts = Inr cfg \<and>
               (\<forall>i\<in>{1..NumAlphas opts}.
                  \<exists>a. Services cfg (name ''alpha'' i) = Some a \<and>
                    contains (Command a)
                      '' --enterprise_features --acl_secret_file=/secret/hmac --acl_access_ttl 10s'' \<and>
                    \<lparr> Type = ''bind'', Source = AclSecret opts, Target = ''/secret/hmac'',
                      ReadOnly = True \<rparr> \<in> set (Volumes a))"
    if ok: "lookup_ok env opts"
  proof -
    from builder_document[OF assms(1) ok] obtain cfg where
      d: "main_document env opts = Inr cfg"
      and as: "\<forall>i\<in>{1..NumAlphas opts}.
          \<exists>a. getAlpha env (resolved opts) i = Inr a \<and> Services cfg (name ''alpha'' i) = Some a"
      by blast
    show ?thesis using d as f unfolding r by blast
  qed
  then show ?thesis using c f by blast
qed

theorem acl_secret_forces_enterprise_witness:
  "valid_options (default_options\<lparr> AclSecret := ''/tmp/hmac'' \<rparr>) \<and>
   AclSecret (default_options\<lparr> AclSecret := ''/tmp/hmac'' \<rparr>) \<noteq> [] \<and>
   \<not> EnterpriseMode (default_options\<lparr> AclSecret := ''/tmp/hmac'' \<rparr>) \<and>
   lookup_ok example_env (default_options\<lparr> AclSecret := ''/tmp/hmac'' \<rparr>) \<and>
   fst (main_checks (default_options\<lparr> AclSecret := ''/tmp/hmac'' \<rparr>)) =
     ''compose: adding --enterprise because it is required by ACL feature'' @ newline \<and>
   (\<exists>cfg a. main_document example_env (default_options\<lparr> AclSecret := ''/tmp/hmac'' \<rparr>) = Inr cfg \<and>
      Services cfg (name ''alpha'' 1) = Some a \<and>
      contains (Command a)
        '' --enterprise_features --acl_secret_file=/secret/hmac --acl_access_ttl 10s'')"
proof -
  let ?o = "default_options\<lparr> AclSecret := ''/tmp/hmac'' \<rparr>"
  have v: "valid_options ?o" using default_valid by (simp add: valid_options_acl)
  have s: "AclSecret ?o \<noteq> []" by simp
  have e: "\<not> EnterpriseMode ?o" by (simp add: default_options_def)
  have m: "(1::int) \<in> {1..NumAlphas ?o}" by (simp add: default_counts)
  note t = acl_secret_forces_enterprise[OF v s e, of example_env]
  from t have "fst (main_checks ?o) =
     ''compose: adding --enterprise because it is required by ACL feature'' @ newline"
    by (simp add: warning_def)
  moreover from t m example_lookup_ok have
    "\<exists>cfg a. main_document example_env ?o = Inr cfg \<and>
      Services cfg (name ''alpha'' 1) = Some a \<and>
      contains (Command a)
        '' --enterprise_features --acl_secret_file=/secret/hmac --acl_access_ttl 10s''"
    by blast
  ultimately show ?thesis using v s e example_lookup_ok by blast
qed

text \<open>
  Claim C7.  With \<open>NumAlphas\<close> in 1..99 and \<open>NumGroups\<close> at least 1 (and within the
  range of Go's \<^verbatim>\<open>int\<close>), the replica count that \<^verbatim>\<open>getZero\<close> computes through
  \<^verbatim>\<open>float64\<close> is the exact ceiling of \<open>NumAlphas / NumGroups\<close>, which is
  \<open>(NumAlphas + NumGroups - 1) div NumGroups\<close>: the rounding of the conversion and of
  the division never moves the quotient across an integer.  The command of every
  coordinator record carries this value, and no longer number, in its
  \<^verbatim>\<open>--replicas\<close> flag.
\<close>

theorem replicas_is_exact_ceiling:
  assumes "1 \<le> NumAlphas opts" and "NumAlphas opts \<le> 99"
    and "1 \<le> NumGroups opts" and "go_int (NumGroups opts)"
  shows "replicas env opts = \<lceil>(of_int (NumAlphas opts) :: rat) / of_int (NumGroups opts)\<rceil> \<and>
         replicas env opts = (NumAlphas opts + NumGroups opts - 1) div NumGroups opts \<and>
         (\<forall>i z. getZero env opts i = Inr z \<longrightarrow>
            contains (Command z)
              ('' --replicas=''
               @ fmt_d ((NumAlphas opts + NumGroups opts - 1) div NumGroups opts)
               @ '' --logtostderr''))"
proof -
  have r: "replicas env opts = \<lceil>(of_int (NumAlphas opts) :: rat) / of_int (NumGroups opts)\<rceil>"
    by (rule replicas_exact[OF assms])
  have d: "replicas env opts = (NumAlphas opts + NumGroups opts - 1) div NumGroups opts"
    using assms(3) by (simp only: r ceiling_as_div)
  have "contains (Command z)
          ('' --replicas=''
           @ fmt_d ((NumAlphas opts + NumGroups opts - 1) div NumGroups opts)
           @ '' --logtostderr'')"
    if g: "getZero env opts i = Inr z" for i z
    by (rule contains_mid[where
          p = "''/gobin/dgraph'' @ cwd_flag opts (name ''zero'' i) @ jaeger_flag opts
               @ '' zero -o '' @ fmt_d (i - 1) @ '' --idx='' @ fmt_d i
               @ '' --my='' @ name ''zero'' i @ '':'' @ fmt_d (zeroBasePort + getOffset i)"
          and q = "'' -v='' @ fmt_d (Verbosity opts)
               @ (if i = 1 then '' --bindall''
                  else '' --peer='' @ name ''zero'' 1 @ '':'' @ fmt_d zeroBasePort)"])
       (simp add: getZero_Command[OF g] d)
  then show ?thesis using r d by blast
qed

theorem replicas_is_exact_ceiling_witness:
  "1 \<le> NumAlphas (default_options\<lparr> NumAlphas := 7, NumGroups := 2 \<rparr>) \<and>
   NumAlphas (default_options\<lparr> NumAlphas := 7, NumGroups := 2 \<rparr>) \<le> 99 \<and>
   1 \<le> NumGroups (default_options\<lparr> NumAlphas := 7, NumGroups := 2 \<rparr>) \<and>
   go_int (NumGroups (default_options\<lparr> NumAlphas := 7, NumGroups := 2 \<rparr>)) \<and>
   replicas example_env (default_options\<lparr> NumAlphas := 7, NumGroups := 2 \<rparr>) = 4 \<and>
   (\<exists>z. getZero example_env (default_options\<lparr> NumAlphas := 7, NumGroups := 2 \<rparr>) 1 = Inr z \<and>
      contains (Command z) '' --replicas=4 --logtostderr'')"
proof -
  let ?o = "default_options\<lparr> NumAlphas := 7, NumGroups := 2 \<rparr>"
  have h: "1 \<le> NumAlphas ?o" "NumAlphas ?o \<le> 99" "1 \<le> NumGroups ?o" "go_int (NumGroups ?o)"
    by (simp_all add: go_int_def)
  note t = replicas_is_exact_ceiling[OF h, of example_env]
  obtain z where z: "getZero example_env ?o 1 = Inr z"
    using getZero_total[OF example_lookup_ok] by blast
  have f4: "fmt_d 4 = ''4''" by (simp add: fmt_d_def show_nat.simps digit_char_def)
  have v: "(NumAlphas ?o + NumGroups ?o - 1) div NumGroups ?o = 4" by simp
  have "replicas example_env ?o = 4" using t v by simp
  moreover have "contains (Command z) '' --replicas=4 --logtostderr''"
    using t z unfolding v f4 by auto
  ultimately show ?thesis using h z by blast
qed

text \<open>
  Claim C8, as stated, fails: the output is not a function of the options and the
  argument vector alone.  In user-ownership mode \<^verbatim>\<open>initService\<close> writes the uid of the
  current user into every record, and the serializer writes it under the key
  \<^verbatim>\<open>user\<close>.  The two runs of
  \<^verbatim>\<open>compose --num_zeros=1 --num_alphas=1 --user --data_dir=/tmp/data\<close> made by the users
  1000 and 1001, in environments that differ in nothing else, both write their
  destination: one text has \<^verbatim>\<open>user: ${UID:-1000}\<close> in it, the other
  \<^verbatim>\<open>user: ${UID:-1001}\<close>, and the two texts differ.  (The emitter is that of the
  examples; by \<open>different_users_different_text\<close> the texts differ with every emitter
  that tells trees apart, for every option set in user-ownership mode.)
\<close>

theorem output_depends_on_current_user:
  "example_user_env ''1001'' = (example_user_env ''1000'')\<lparr> user_Current := Inr ''1001'' \<rparr> \<and>
   os_Args (example_user_env ''1001'') = os_Args (example_user_env ''1000'') \<and>
   \<not> isl (result (main (example_user_env ''1000'') example_user_options)) \<and>
   \<not> isl (result (main (example_user_env ''1001'') example_user_options)) \<and>
   contains (snd (projr (result (main (example_user_env ''1000'') example_user_options))))
     ''user: ${UID:-1000}'' \<and>
   contains (snd (projr (result (main (example_user_env ''1001'') example_user_options))))
     ''user: ${UID:-1001}'' \<and>
   snd (projr (result (main (example_user_env ''1001'') example_user_options))) \<noteq>
   snd (projr (result (main (example_user_env ''1000'') example_user_options)))"
proof -
  have e: "example_user_env ''1001'' = (example_user_env ''1000'')\<lparr> user_Current := Inr ''1001'' \<rparr>"
    by (simp add: example_user_env_def)
  have a: "os_Args (example_user_env ''1001'') = os_Args (example_user_env ''1000'')"
    by (simp add: example_user_env_simps)
  have d: "snd (projr (result (main (example_user_env ''1001'') example_user_options))) \<noteq>
      snd (projr (result (main (example_user_env ''1000'') example_user_options)))"
    by (simp add: example_user_run)
  show ?thesis
    using e a d example_user_result(1)[of "''1000''"] example_user_result(1)[of "''1001''"]
      example_user_result(3)[of "''1000''"] example_user_result(3)[of "''1001''"]
    by simp
qed

text \<open>
  Claim C8, amended.  Two runs with the same options and the same argument vector, made
  by the same user when user-ownership mode is on, generate the same text, byte for
  byte, and leave the same result: the same error, or the same destination with the
  same text.  From the first run to the second the user may change (when
  user-ownership mode is off), and so may the order in which the runtime iterates over
  the Go maps, the time of the run and, for the generated text, the answer of the file
  system for the output file; each iteration visits every key of its map once.  The
  two runs are runs of one program on one machine: the emitter and the conversion from
  \<^verbatim>\<open>float64\<close> are those of the first run.  The generated text is what \<^verbatim>\<open>main\<close>
  writes: to the standard output, or to the output file when it can be opened.  The key
  order of the two mappings is fixed: whatever order the iteration takes, the serializer
  hands the same tree to the emitter, with every service and every named volume of the
  document in it once.
\<close>

theorem same_parameters_same_output:
  assumes "iteration_ok (map_range env)" and "iteration_ok k"
    and "UserOwnership opts \<longrightarrow> u = user_Current env"
  shows "main_text (env\<lparr> user_Current := u, map_range := k, log_prefix := t, os_Create := f \<rparr>) opts
           = main_text env opts \<and>
         result (main (env\<lparr> user_Current := u, map_range := k, log_prefix := t \<rparr>) opts)
           = result (main env opts) \<and>
         result (main env opts) =
           (case main_text env opts of
              Inl e \<Rightarrow> Inl e
            | Inr doc \<Rightarrow>
                if OutFile opts = ''-'' then Inr (''-'', doc)
                else (case os_Create env (OutFile opts) of
                        Some err \<Rightarrow> Inl (Fatal (''unable to open file for writing: '' @ err))
                      | None \<Rightarrow> Inr (OutFile opts, doc))) \<and>
         (\<forall>cfg. main_document env opts = Inr cfg \<longrightarrow>
            (\<exists>ss vs.
               yaml_ComposeConfig env cfg =
                 YMap [(''version'', YStr (Version cfg)), (''services'', YMap ss),
                       (''volumes'', YMap vs)] \<and>
               yaml_ComposeConfig (env\<lparr> map_range := k \<rparr>) cfg = yaml_ComposeConfig env cfg \<and>
               distinct (map fst ss) \<and> set (map fst ss) = dom (Services cfg) \<and>
               distinct (map fst vs) \<and> set (map fst vs) = dom (cfg_Volumes cfg)))"
proof -
  let ?e1 = "env\<lparr> user_Current := u, map_range := k, log_prefix := t, os_Create := f \<rparr>"
  let ?e2 = "env\<lparr> user_Current := u, map_range := k, log_prefix := t \<rparr>"
  have a: "main_text ?e1 opts = main_text env opts"
    by (rule main_text_env) (use assms in \<open>simp_all add: replicas_def\<close>)
  have "main_text ?e2 opts = main_text env opts"
    by (rule main_text_env) (use assms in \<open>simp_all add: replicas_def\<close>)
  then have b: "result (main ?e2 opts) = result (main env opts)"
    by (rule main_result_env) simp
  have c: "\<exists>ss vs.
               yaml_ComposeConfig env cfg =
                 YMap [(''version'', YStr (Version cfg)), (''services'', YMap ss),
                       (''volumes'', YMap vs)] \<and>
               yaml_ComposeConfig (env\<lparr> map_range := k \<rparr>) cfg = yaml_ComposeConfig env cfg \<and>
               distinct (map fst ss) \<and> set (map fst ss) = dom (Services cfg) \<and>
               distinct (map fst vs) \<and> set (map fst vs) = dom (cfg_Volumes cfg)"
    if "main_document env opts = Inr cfg" for cfg
    by (rule document_entries[OF that assms(1)]) (use assms(2) in simp)
  show ?thesis using a b c main_result_by_text[of env opts] by blast
qed

theorem same_parameters_same_output_witness:
  "iteration_ok (map_range (example_user_env ''1000'')) \<and>
   iteration_ok (\<lambda>S. rev (sorted_list_of_set S)) \<and>
   UserOwnership example_user_options \<and>
   Inr ''1000'' = user_Current (example_user_env ''1000'') \<and>
   main_text ((example_user_env ''1000'')
       \<lparr> user_Current := Inr ''1000'', map_range := \<lambda>S. rev (sorted_list_of_set S),
         log_prefix := ''2019/03/02 08:30:00 '', os_Create := \<lambda>path. Some ''permission denied'' \<rparr>)
     example_user_options =
   main_text (example_user_env ''1000'') example_user_options \<and>
   result (main ((example_user_env ''1000'')
       \<lparr> user_Current := Inr ''1000'', map_range := \<lambda>S. rev (sorted_list_of_set S),
         log_prefix := ''2019/03/02 08:30:00 '' \<rparr>)
     example_user_options) =
   result (main (example_user_env ''1000'') example_user_options) \<and>
   \<not> isl (result (main (example_user_env ''1000'') example_user_options))"
proof -
  have r1: "iteration_ok (map_range (example_user_env ''1000''))"
    by (simp add: example_user_env_simps iteration_ok_sorted)
  have r2: "iteration_ok (\<lambda>S. rev (sorted_list_of_set S))" by (rule iteration_ok_rev)
  have u: "UserOwnership example_user_options" by (simp add: example_user_options_simps)
  have c: "Inr ''1000'' = user_Current (example_user_env ''1000'')"
    by (simp add: example_user_env_simps)
  then have h: "UserOwnership example_user_options \<longrightarrow>
      Inr ''1000'' = user_Current (example_user_env ''1000'')"
    by simp
  from same_parameters_same_output[OF r1 r2 h] r1 r2 u c
    example_user_result(1)[of "''1000''"]
  show ?thesis by blast
qed

end
